theory Spec2Isabelle
  imports Complex_Main "HOL-Library.Log_Nat"
begin

section \<open>The BiasClear scan script (\<^verbatim>\<open>scan.py\<close>)\<close>

text \<open>
  The script expands a glob pattern, reads every matched file, sends its text to the
  analyser \<^verbatim>\<open>scan_local\<close>, collects one dictionary per file, writes four step outputs
  and a job summary, and exits with status 1 when a flagged file scored below the
  threshold.  This theory embeds \<^verbatim>\<open>main\<close>, \<^verbatim>\<open>_set_output\<close>, \<^verbatim>\<open>_build_summary\<close> and
  \<^verbatim>\<open>_write_summary\<close>.

  Conventions of the embedding:
  \<^item> A Python \<^verbatim>\<open>str\<close> is a HOL \<^typ>\<open>string\<close>; each \<^typ>\<open>char\<close> stands for one code point
    below 256.
  \<^item> Python's \<^verbatim>\<open>int\<close> is \<^typ>\<open>int\<close>; a \<^verbatim>\<open>float\<close> is the \<^typ>\<open>rat\<close> it denotes exactly.
  \<^item> The analyser's answer has the types of its interface: an integer score, a list of
    flag dictionaries with string values, a Boolean; every key may be absent.
  \<^item> An exception is a value; \<^verbatim>\<open>try/except Exception\<close> is a case distinction.  What is
    raised is an instance of \<^verbatim>\<open>Exception\<close>: an interrupt or a cancellation of the coroutine ends
    the process from outside and is not part of the embedding.
  \<^item> Everything the script does to the outside (lines printed, files opened, the analyser
    awaited, text appended to the output and summary files, the exit) is recorded in
    order in a trace of effects.  Each \<^verbatim>\<open>print\<close> statement of the source has its own
    constructor, which carries the values the source interpolates into the line.
  \<^item> Printing, the import of the analyser in line 44 and appending to a configured output
    or summary file do not fail, and no integer is too long for \<^verbatim>\<open>str\<close>.
\<close>

subsection \<open>Exceptions\<close>

datatype exn = Raised (exn_class: string) (exn_str: string)
  \<comment> \<open>an instance of a subclass of \<^verbatim>\<open>Exception\<close>: its class name and \<^verbatim>\<open>str(e)\<close>\<close>

subsection \<open>The analyser's answer and the per-file dictionaries\<close>

record flag_dict =
  name_opt :: "string option"
  severity_opt :: "string option"

record scan_result =
  truth_score_opt :: "int option"
  flags_opt :: "flag_dict list option"
  bias_detected_opt :: "bool option"

text \<open>\<^verbatim>\<open>d.get(key, default)\<close>\<close>

definition get :: "'a option \<Rightarrow> 'a \<Rightarrow> 'a" where
  "get v dflt = (case v of None \<Rightarrow> dflt | Some x \<Rightarrow> x)"

record flag =
  name :: string
  severity :: string

text \<open>
  The two shapes of dictionary the loop appends to \<^verbatim>\<open>results\<close>: the one built after a
  successful scan (lines 67 to 76) and the one built in the exception handler
  (lines 98 to 102, whose \<^verbatim>\<open>"skipped"\<close> entry is always \<^verbatim>\<open>True\<close>).
\<close>

datatype file_result =
    Scanned (file_path: string) (truth_score: int) (bias_detected: bool)
            (flag_count: nat) (flags: "flag list")
  | Failed (file_path: string) (error: string)

text \<open>\<^verbatim>\<open>r.get("skipped")\<close>, read as a truth value\<close>

fun skipped :: "file_result \<Rightarrow> bool" where
  "skipped (Scanned _ _ _ _ _) = False"
| "skipped (Failed _ _) = True"

text \<open>\<^verbatim>\<open>f.get("truth_score", 100)\<close>\<close>

fun get_truth_score :: "file_result \<Rightarrow> int \<Rightarrow> int" where
  "get_truth_score (Scanned _ s _ _ _) dflt = s"
| "get_truth_score (Failed _ _) dflt = dflt"

text \<open>\<^verbatim>\<open>f['truth_score']\<close>, which raises \<^verbatim>\<open>KeyError\<close> when the key is absent\<close>

fun item_truth_score :: "file_result \<Rightarrow> exn + int" where
  "item_truth_score (Scanned _ s _ _ _) = Inr s"
| "item_truth_score (Failed _ _) = Inl (Raised ''KeyError'' (CHR 0x27 # ''truth_score'' @ [CHR 0x27]))"

text \<open>\<^verbatim>\<open>f.get("flags", [])\<close>\<close>

fun get_flags :: "file_result \<Rightarrow> flag list" where
  "get_flags (Scanned _ _ _ _ fs) = fs"
| "get_flags (Failed _ _) = []"

subsection \<open>Strings\<close>

text \<open>\<^verbatim>\<open>sep.join(xs)\<close>\<close>

fun join :: "string \<Rightarrow> string list \<Rightarrow> string" where
  "join sep [] = []"
| "join sep [x] = x"
| "join sep (x # y # ys) = x @ sep @ join sep (y # ys)"

text \<open>
  \<^verbatim>\<open>str.isspace\<close> on one character: the white-space code points below 256 are
  9 to 13, 28 to 32, 133 and 160.
\<close>

definition isspace :: "char \<Rightarrow> bool" where
  "isspace c = (let n = of_char c :: nat in
     (9 \<le> n \<and> n \<le> 13) \<or> (28 \<le> n \<and> n \<le> 32) \<or> n = 133 \<or> n = 160)"

text \<open>\<^verbatim>\<open>text.strip()\<close>\<close>

definition strip :: "string \<Rightarrow> string" where
  "strip s = rev (dropWhile isspace (rev (dropWhile isspace s)))"

text \<open>\<^verbatim>\<open>str(n)\<close> for an integer\<close>

fun str_nat :: "nat \<Rightarrow> string" where
  "str_nat n = (if n < 10 then [char_of (48 + n)]
                else str_nat (n div 10) @ [char_of (48 + n mod 10)])"

declare str_nat.simps [simp del]

definition str_int :: "int \<Rightarrow> string" where
  "str_int i = (if i < 0 then CHR ''-'' # str_nat (nat (- i)) else str_nat (nat i))"

subsection \<open>Floating point\<close>

text \<open>
  A finite binary64 value is the rational it denotes.  \<open>round_half_even\<close> is rounding to
  the nearest integer, ties to the even one; \<open>binade x\<close> is the exponent \<open>e\<close> with
  \<open>2^e \<le> |x| < 2^(e+1)\<close>; \<open>fl64\<close> rounds a rational to the nearest number with a
  53-bit significand and an exponent of at least -1022 (so subnormals are included), ties
  to even, with no upper bound on the exponent: the callers check the range.
\<close>

definition round_half_even :: "rat \<Rightarrow> int" where
  "round_half_even x =
     (let f = \<lfloor>x\<rfloor>; r = x - of_int f in
      if r < 1 / 2 then f else if 1 / 2 < r then f + 1 else if even f then f else f + 1)"

definition pow2 :: "int \<Rightarrow> rat" where
  "pow2 e = (if 0 \<le> e then 2 ^ nat e else 1 / 2 ^ nat (- e))"

definition binade :: "rat \<Rightarrow> int" where
  "binade x =
     (let (p, q) = quotient_of \<bar>x\<bar>; e = bitlen p - bitlen q in
      if pow2 e \<le> \<bar>x\<bar> then e else e - 1)"

definition fl64 :: "rat \<Rightarrow> rat" where
  "fl64 x =
     (if x = 0 then 0
      else let u = pow2 (max (binade x) (- 1022) - 52) in of_int (round_half_even (x / u)) * u)"

text \<open>
  \<^verbatim>\<open>a / b\<close> on two integers: the correctly rounded quotient; \<^verbatim>\<open>OverflowError\<close> when it
  is too large for a float.
\<close>

definition truediv :: "int \<Rightarrow> int \<Rightarrow> exn + rat" where
  "truediv a b =
     (if b = 0 then Inl (Raised ''ZeroDivisionError'' ''division by zero'')
      else let r = fl64 (of_int a / of_int b) in
        if pow2 1024 \<le> \<bar>r\<bar>
        then Inl (Raised ''OverflowError'' ''integer division result too large for a float'')
        else Inr r)"

text \<open>
  \<^verbatim>\<open>round(x, 1)\<close> on a float: the decimal with one fractional digit nearest to the exact
  value of \<open>x\<close> (ties to the even digit), converted back to the nearest float.
\<close>

definition round1 :: "rat \<Rightarrow> rat" where
  "round1 x = fl64 (of_int (round_half_even (x * 10)) / 10)"

text \<open>
  \<^verbatim>\<open>avg_score\<close> is the integer 100 or a float.  \<^verbatim>\<open>str\<close> of a float is the interpreter's
  shortest round-trip representation; it is taken as a parameter \<open>repr\<close>.
\<close>

datatype number = Int_val int | Float_val rat

fun str_number :: "(rat \<Rightarrow> string) \<Rightarrow> number \<Rightarrow> string" where
  "str_number repr (Int_val i) = str_int i"
| "str_number repr (Float_val x) = repr x"

subsection \<open>The report as JSON text\<close>

text \<open>
  The values \<^verbatim>\<open>json.dumps\<close> meets in \<^verbatim>\<open>results\<close>: strings, integers, Booleans, lists and
  dictionaries with string keys.  \<open>dumps\<close> writes them as \<^verbatim>\<open>json.dumps\<close> does with its
  default separators and \<^verbatim>\<open>ensure_ascii\<close>: every character outside the printable ASCII
  range, the quote and the backslash are escaped.
\<close>

datatype json = JNull | JBool bool | JInt int | JStr string
  | JList "json list" | JDict "(string \<times> json) list"

definition hex_digit :: "nat \<Rightarrow> char" where
  "hex_digit n = (if n < 10 then char_of (48 + n) else char_of (87 + n))"

definition escape_char :: "char \<Rightarrow> string" where
  "escape_char c =
     (if c = CHR ''\"'' then [CHR 0x5C, CHR ''\"'']
      else if c = CHR 0x5C then [CHR 0x5C, CHR 0x5C]
      else if c = CHR 0x0A then [CHR 0x5C, CHR ''n'']
      else if c = CHR 0x0D then [CHR 0x5C, CHR ''r'']
      else if c = CHR 0x09 then [CHR 0x5C, CHR ''t'']
      else if c = CHR 0x08 then [CHR 0x5C, CHR ''b'']
      else if c = CHR 0x0C then [CHR 0x5C, CHR ''f'']
      else if 32 \<le> (of_char c :: nat) \<and> (of_char c :: nat) \<le> 126 then [c]
      else [CHR 0x5C, CHR ''u'', CHR ''0'', CHR ''0'',
            hex_digit (of_char c div 16), hex_digit (of_char c mod 16)])"

definition dumps_str :: "string \<Rightarrow> string" where
  "dumps_str s = [CHR ''\"''] @ concat (map escape_char s) @ [CHR ''\"'']"

primrec dumps :: "json \<Rightarrow> string" where
  "dumps JNull = ''null''"
| "dumps (JBool b) = (if b then ''true'' else ''false'')"
| "dumps (JInt i) = str_int i"
| "dumps (JStr s) = dumps_str s"
| "dumps (JList xs) = ''['' @ join '', '' (map dumps xs) @ '']''"
| "dumps (JDict kvs) =
     ''{'' @ join '', '' (map (\<lambda>kv. dumps_str (fst kv) @ '': '' @ snd kv)
                              (map (map_prod id dumps) kvs)) @ ''}''"

text \<open>The dictionaries of lines 67 to 76 and 98 to 102, key by key in insertion order.\<close>

definition flag_json :: "flag \<Rightarrow> json" where
  "flag_json f = JDict [(''name'', JStr (name f)), (''severity'', JStr (severity f))]"

fun file_result_json :: "file_result \<Rightarrow> json" where
  "file_result_json (Scanned fp score bd fc fs) =
     JDict [(''file'', JStr fp), (''truth_score'', JInt score), (''bias_detected'', JBool bd),
            (''flag_count'', JInt (int fc)), (''flags'', JList (map flag_json fs))]"
| "file_result_json (Failed fp e) =
     JDict [(''file'', JStr fp), (''error'', JStr e), (''skipped'', JBool True)]"

text \<open>\<^verbatim>\<open>json.dumps(results, default=str)\<close>; no value here needs the \<^verbatim>\<open>default\<close> hook.\<close>

definition json_dumps :: "file_result list \<Rightarrow> string" where
  "json_dumps rs = dumps (JList (map file_result_json rs))"

subsection \<open>Effects\<close>

text \<open>The three status glyphs of lines 82, 89 and 91: red, yellow and green circle.\<close>

datatype status = Red | Yellow | Green

text \<open>The lines of the markdown summary, one constructor per line \<^verbatim>\<open>_build_summary\<close> appends.\<close>

datatype md_line =
    Md_title | Md_blank | Md_metric_head | Md_metric_rule
  | Md_files_scanned nat | Md_files_flagged nat | Md_average number
  | Md_threshold int | Md_domain string
  | Md_flagged_title | Md_flagged_head | Md_flagged_rule
  | Md_flagged_row string int string
  | Md_all_passed | Md_rule | Md_footer

text \<open>The lines written to standard output, one constructor per \<^verbatim>\<open>print\<close> statement.\<close>

datatype line =
    No_files_matched string                   \<comment> \<open>line 31: the pattern\<close>
  | Scanning nat string                       \<comment> \<open>line 38: number of files, domain\<close>
  | Settings int bool                         \<comment> \<open>line 39: threshold, fail on bias\<close>
  | Pattern string                            \<comment> \<open>line 40\<close>
  | Blank                                     \<comment> \<open>lines 41 and 108\<close>
  | Skipped_empty string                      \<comment> \<open>line 56\<close>
  | Warning_annotation string int nat string  \<comment> \<open>lines 85 to 87: file, score, flag count, names\<close>
  | Progress status string int nat            \<comment> \<open>lines 93 and 94: glyph, file, score, flag count\<close>
  | Scan_failed string string                 \<comment> \<open>line 97: file, \<^verbatim>\<open>str(e)\<close>\<close>
  | Rule                                      \<comment> \<open>lines 109 and 112\<close>
  | Results nat nat number                    \<comment> \<open>lines 110 and 111\<close>
  | Below_threshold nat int                   \<comment> \<open>line 128\<close>
  | All_passed                                \<comment> \<open>line 131\<close>
  | Output_fallback string                    \<comment> \<open>line 148: the text after the two spaces\<close>
  | Summary_fallback "md_line list"           \<comment> \<open>line 199\<close>

datatype effect =
    Print line
  | Open_read string                          \<comment> \<open>line 52: the path opened\<close>
  | Await_scan_local string string            \<comment> \<open>line 60: text and domain\<close>
  | Append_output string string               \<comment> \<open>lines 138 to 145: file name, text written\<close>
  | Append_summary string "md_line list"      \<comment> \<open>lines 196 and 197\<close>
  | Sys_exit int                              \<comment> \<open>line 129\<close>

subsection \<open>The surroundings of a run\<close>

text \<open>
  The configuration is what lines 22 to 25 read from the environment, after \<^verbatim>\<open>int\<close> has
  parsed the threshold (a threshold that does not parse ends the run before line 27).
\<close>

record config =
  paths_pattern :: string
  threshold :: int
  domain :: string
  fail_on_bias :: bool

record env =
  GITHUB_OUTPUT :: "string option"
  GITHUB_STEP_SUMMARY :: "string option"

text \<open>
  What the run reads from outside: the files the pattern matches, the text of a file
  after lenient decoding or the exception \<^verbatim>\<open>open\<close>/\<^verbatim>\<open>read\<close> raises, the analyser, the
  delimiter \<^verbatim>\<open>uuid.uuid4().hex\<close> returns, and \<^verbatim>\<open>repr\<close> of a float.
\<close>

record world =
  glob_files :: "string \<Rightarrow> string list"
  read_text :: "string \<Rightarrow> exn + string"
  scan_local :: "string \<Rightarrow> string \<Rightarrow> exn + scan_result"
  uuid4_hex :: string
  float_repr :: "rat \<Rightarrow> string"

subsection \<open>\<^verbatim>\<open>_set_output\<close>, \<^verbatim>\<open>_build_summary\<close>, \<^verbatim>\<open>_write_summary\<close>\<close>

text \<open>A string taken from the environment is true when it is present and not empty.\<close>

definition truthy :: "string option \<Rightarrow> bool" where
  "truthy v = (case v of None \<Rightarrow> False | Some s \<Rightarrow> s \<noteq> [])"

definition set_output :: "world \<Rightarrow> env \<Rightarrow> string \<Rightarrow> string \<Rightarrow> effect" where
  "set_output w e nm val =
     (let output_file = GITHUB_OUTPUT e in
      if truthy output_file then
        if CHR 0x0A \<in> set val then
          (let delimiter = uuid4_hex w in
           Append_output (the output_file)
             (nm @ ''<<'' @ delimiter @ [CHR 0x0A] @ val @ [CHR 0x0A] @ delimiter @ [CHR 0x0A]))
        else Append_output (the output_file) (nm @ ''='' @ val @ [CHR 0x0A])
      else Print (Output_fallback
             (''[output] '' @ nm @ ''='' @ take 100 val @
              (if 100 < length val then ''...'' else []))))"

text \<open>One row of the flagged table (lines 175 to 178).\<close>

definition flagged_row :: "file_result \<Rightarrow> exn + md_line" where
  "flagged_row f =
     (let flag_names = join '', '' (map name (take 3 (get_flags f))) in
      case item_truth_score f of
        Inl e \<Rightarrow> Inl e
      | Inr score \<Rightarrow> Inr (Md_flagged_row (file_path f) score flag_names))"

text \<open>The \<^verbatim>\<open>for\<close> loop of lines 174 to 178: the first exception ends it.\<close>

fun flagged_rows :: "file_result list \<Rightarrow> exn + md_line list" where
  "flagged_rows [] = Inr []"
| "flagged_rows (f # fs) =
     (case flagged_row f of
        Inl e \<Rightarrow> Inl e
      | Inr row \<Rightarrow> (case flagged_rows fs of Inl e \<Rightarrow> Inl e | Inr rows \<Rightarrow> Inr (row # rows)))"

definition build_summary ::
  "file_result list \<Rightarrow> file_result list \<Rightarrow> number \<Rightarrow> int \<Rightarrow> string \<Rightarrow> exn + md_line list" where
  "build_summary scanned flagged avg_score thr dmn =
     (let lines = [Md_title, Md_blank, Md_metric_head, Md_metric_rule,
                   Md_files_scanned (length scanned), Md_files_flagged (length flagged),
                   Md_average avg_score, Md_threshold thr, Md_domain dmn, Md_blank] in
      case (if flagged \<noteq> []
            then (case flagged_rows flagged of
                    Inl e \<Rightarrow> Inl e
                  | Inr rows \<Rightarrow>
                      Inr (lines @ [Md_flagged_title, Md_blank, Md_flagged_head, Md_flagged_rule]
                             @ rows @ [Md_blank]))
            else Inr lines) of
        Inl e \<Rightarrow> Inl e
      | Inr lines \<Rightarrow>
          (let lines = (if flagged = [] then lines @ [Md_all_passed, Md_blank] else lines)
           in Inr (lines @ [Md_rule, Md_footer])))"

definition write_summary :: "env \<Rightarrow> md_line list \<Rightarrow> effect" where
  "write_summary e summary =
     (let summary_file = GITHUB_STEP_SUMMARY e in
      if truthy summary_file then Append_summary (the summary_file) summary
      else Print (Summary_fallback summary))"

subsection \<open>The loop over the files (lines 46 to 102)\<close>

record state =
  results :: "file_result list"
  flagged :: "file_result list"
  total_score :: int
  trace :: "effect list"

definition emit :: "effect \<Rightarrow> state \<Rightarrow> state" where
  "emit x st = st\<lparr>trace := trace st @ [x]\<rparr>"

text \<open>The handler of lines 96 to 102.\<close>

definition except_handler :: "string \<Rightarrow> exn \<Rightarrow> state \<Rightarrow> state" where
  "except_handler filepath e st =
     (let st = emit (Print (Scan_failed filepath (exn_str e))) st
      in st\<lparr>results := results st @ [Failed filepath (exn_str e)]\<rparr>)"

text \<open>Lines 61 to 94: what follows a successful \<^verbatim>\<open>await scan_local\<close>.\<close>

definition record_result :: "config \<Rightarrow> string \<Rightarrow> scan_result \<Rightarrow> state \<Rightarrow> state" where
  "record_result cfg filepath result st =
     (let score = get (truth_score_opt result) 100;
          flgs = get (flags_opt result) [];
          bias = get (bias_detected_opt result) False;
          flg_count = length flgs;
          st = st\<lparr>total_score := total_score st + score\<rparr>;
          file_result = Scanned filepath score bias flg_count
            (map (\<lambda>f. \<lparr>name = get (name_opt f) [], severity = get (severity_opt f) []\<rparr>)
                 (take 5 flgs));
          st = st\<lparr>results := results st @ [file_result]\<rparr>;
          (st, status) =
            (if bias \<or> score < threshold cfg then
               (let st = st\<lparr>flagged := flagged st @ [file_result]\<rparr>;
                    flag_names = join '', '' (map (\<lambda>f. get (name_opt f) []) (take 3 flgs))
                in (emit (Print (Warning_annotation filepath score flg_count flag_names)) st, Red))
             else if score < 90 then (st, Yellow)
             else (st, Green))
      in emit (Print (Progress status filepath score flg_count)) st)"

text \<open>One round of the loop, lines 51 to 102.\<close>

definition scan_file :: "world \<Rightarrow> config \<Rightarrow> state \<Rightarrow> string \<Rightarrow> state" where
  "scan_file w cfg st filepath =
     (let st = emit (Open_read filepath) st in
      case read_text w filepath of
        Inl e \<Rightarrow> except_handler filepath e st
      | Inr text \<Rightarrow>
          if strip text = [] then emit (Print (Skipped_empty filepath)) st
          else
            (let st = emit (Await_scan_local text (domain cfg)) st in
             case scan_local w text (domain cfg) of
               Inl e \<Rightarrow> except_handler filepath e st
             | Inr result \<Rightarrow> record_result cfg filepath result st))"

definition scan_files :: "world \<Rightarrow> config \<Rightarrow> state \<Rightarrow> string list \<Rightarrow> state" where
  "scan_files w cfg st files = foldl (scan_file w cfg) st files"

subsection \<open>\<^verbatim>\<open>main\<close>\<close>

datatype outcome = Returned | Exited int | Uncaught exn

text \<open>The exit status of the process: an uncaught exception ends it with status 1.\<close>

fun exit_status :: "outcome \<Rightarrow> int" where
  "exit_status Returned = 0"
| "exit_status (Exited n) = n"
| "exit_status (Uncaught e) = 1"

text \<open>Line 106.\<close>

definition average :: "int \<Rightarrow> file_result list \<Rightarrow> exn + number" where
  "average tot scanned =
     (if scanned \<noteq> [] then
        (case truediv tot (int (max (length scanned) 1)) of
           Inl e \<Rightarrow> Inl e
         | Inr x \<Rightarrow> Inr (Float_val (round1 x)))
      else Inr (Int_val 100))"

text \<open>Lines 124 to 131.\<close>

definition decide :: "config \<Rightarrow> file_result list \<Rightarrow> effect list \<times> outcome" where
  "decide cfg flgd =
     (if flgd \<noteq> [] \<and> fail_on_bias cfg then
        (let below = filter (\<lambda>f. get_truth_score f 100 < threshold cfg) flgd in
         if below \<noteq> []
         then ([Print (Below_threshold (length below) (threshold cfg)), Sys_exit 1], Exited 1)
         else ([Print All_passed], Returned))
      else ([Print All_passed], Returned))"

text \<open>Lines 104 to 131: everything after the loop.\<close>

definition report :: "world \<Rightarrow> env \<Rightarrow> config \<Rightarrow> state \<Rightarrow> effect list \<times> outcome" where
  "report w e cfg st =
     (let scanned = filter (\<lambda>r. \<not> skipped r) (results st) in
      case average (total_score st) scanned of
        Inl ex \<Rightarrow> (trace st, Uncaught ex)
      | Inr avg_score \<Rightarrow>
          (let tr = trace st @
                 [Print Blank, Print Rule,
                  Print (Results (length scanned) (length (flagged st)) avg_score),
                  Print Rule,
                  set_output w e ''total_files'' (str_int (int (length scanned))),
                  set_output w e ''flagged_files'' (str_int (int (length (flagged st)))),
                  set_output w e ''avg_score'' (str_number (float_repr w) avg_score),
                  set_output w e ''report'' (json_dumps (results st))]
           in case build_summary scanned (flagged st) avg_score (threshold cfg) (domain cfg) of
                Inl ex \<Rightarrow> (tr, Uncaught ex)
              | Inr summary \<Rightarrow>
                  (let (fin, out) = decide cfg (flagged st)
                   in (tr @ [write_summary e summary] @ fin, out))))"

text \<open>Lines 38 to 48: the header lines and the empty accumulators.\<close>

definition initial_state :: "config \<Rightarrow> string list \<Rightarrow> state" where
  "initial_state cfg files =
     \<lparr>results = [], flagged = [], total_score = 0,
      trace = [Print (Scanning (length files) (domain cfg)),
               Print (Settings (threshold cfg) (fail_on_bias cfg)),
               Print (Pattern (paths_pattern cfg)),
               Print Blank]\<rparr>"

definition main :: "world \<Rightarrow> env \<Rightarrow> config \<Rightarrow> effect list \<times> outcome" where
  "main w e cfg =
     (let files = glob_files w (paths_pattern cfg) in
      if files = [] then
        ([Print (No_files_matched (paths_pattern cfg)),
          set_output w e ''total_files'' ''0'',
          set_output w e ''flagged_files'' ''0'',
          set_output w e ''avg_score'' ''100'',
          set_output w e ''report'' ''[]''], Returned)
      else report w e cfg (scan_files w cfg (initial_state cfg files) files))"

subsection \<open>Notions used to state the properties\<close>

text \<open>
  The dictionary of lines 67 to 76 as a function of the path and the analyser's answer;
  whether a file reads as empty after \<^verbatim>\<open>strip\<close>; the dictionary a file that is not empty
  adds to \<^verbatim>\<open>results\<close>; the paths opened in a trace; the test of line 80 on a dictionary.
\<close>

definition scanned_result :: "string \<Rightarrow> scan_result \<Rightarrow> file_result" where
  "scanned_result filepath result =
     Scanned filepath (get (truth_score_opt result) 100) (get (bias_detected_opt result) False)
       (length (get (flags_opt result) []))
       (map (\<lambda>f. \<lparr>name = get (name_opt f) [], severity = get (severity_opt f) []\<rparr>)
            (take 5 (get (flags_opt result) [])))"

definition blank :: "world \<Rightarrow> string \<Rightarrow> bool" where
  "blank w filepath = (case read_text w filepath of Inl e \<Rightarrow> False | Inr text \<Rightarrow> strip text = [])"

definition file_entry :: "world \<Rightarrow> config \<Rightarrow> string \<Rightarrow> file_result" where
  "file_entry w cfg filepath =
     (case read_text w filepath of
        Inl e \<Rightarrow> Failed filepath (exn_str e)
      | Inr text \<Rightarrow>
          (case scan_local w text (domain cfg) of
             Inl e \<Rightarrow> Failed filepath (exn_str e)
           | Inr result \<Rightarrow> scanned_result filepath result))"

fun opened :: "effect list \<Rightarrow> string list" where
  "opened [] = []"
| "opened (Open_read p # xs) = p # opened xs"
| "opened (_ # xs) = opened xs"

definition is_flagged :: "config \<Rightarrow> file_result \<Rightarrow> bool" where
  "is_flagged cfg r = (case r of Scanned _ score bias _ _ \<Rightarrow> bias \<or> score < threshold cfg | Failed _ _ \<Rightarrow> False)"

text \<open>The state the loop ends in when the run starts from the files the pattern matches.\<close>

definition final_state :: "world \<Rightarrow> config \<Rightarrow> state" where
  "final_state w cfg =
     (let files = glob_files w (paths_pattern cfg) in scan_files w cfg (initial_state cfg files) files)"

text \<open>The state after the first \<open>n\<close> rounds of the loop.\<close>

definition state_after :: "world \<Rightarrow> config \<Rightarrow> string list \<Rightarrow> nat \<Rightarrow> state" where
  "state_after w cfg files n = scan_files w cfg (initial_state cfg files) (take n files)"

subsection \<open>Reading the report back\<close>

text \<open>
  \<open>loads\<close> follows \<^verbatim>\<open>json.loads\<close> on the values of type \<open>json\<close>: white space is skipped where
  the decoder skips it, a string ends at the first quote that is not escaped, a
  dictionary keeps its keys in the order of their first occurrence with the value of
  the last.  A text with a number that is not an integer, or with an escape for a
  character beyond 255, is outside these values and gives \<open>None\<close>, as does a text
  \<^verbatim>\<open>json.loads\<close> rejects.  The first argument of the three parsing functions bounds the
  depth of the calls; \<open>loads\<close> passes one more than the length of the text, which is
  shown below to be enough for every text \<open>dumps\<close> writes.
\<close>

definition is_ws :: "char \<Rightarrow> bool" where
  "is_ws c = (c = CHR 0x20 \<or> c = CHR 0x09 \<or> c = CHR 0x0A \<or> c = CHR 0x0D)"

definition skip_ws :: "string \<Rightarrow> string" where
  "skip_ws s = dropWhile is_ws s"

definition is_digit :: "char \<Rightarrow> bool" where
  "is_digit c = (48 \<le> (of_char c :: nat) \<and> (of_char c :: nat) \<le> 57)"

definition hex_value :: "char \<Rightarrow> nat option" where
  "hex_value c =
     (let n = of_char c :: nat in
      if 48 \<le> n \<and> n \<le> 57 then Some (n - 48)
      else if 97 \<le> n \<and> n \<le> 102 then Some (n - 87)
      else if 65 \<le> n \<and> n \<le> 70 then Some (n - 55)
      else None)"

text \<open>The character a backslash and one more character stand for.\<close>

definition unescape :: "char \<Rightarrow> char option" where
  "unescape c =
     (if c = CHR ''\"'' then Some (CHR ''\"'')
      else if c = CHR 0x5C then Some (CHR 0x5C)
      else if c = CHR ''/'' then Some (CHR ''/'')
      else if c = CHR ''b'' then Some (CHR 0x08)
      else if c = CHR ''f'' then Some (CHR 0x0C)
      else if c = CHR ''n'' then Some (CHR 0x0A)
      else if c = CHR ''r'' then Some (CHR 0x0D)
      else if c = CHR ''t'' then Some (CHR 0x09)
      else None)"

text \<open>The rest of a string after its opening quote, and what follows the closing one.\<close>

fun scan_string :: "string \<Rightarrow> (string \<times> string) option" where
  "scan_string [] = None"
| "scan_string (c # cs) =
     (if c = CHR ''\"'' then Some ([], cs)
      else if c = CHR 0x5C then
        (case cs of
           [] \<Rightarrow> None
         | e # cs1 \<Rightarrow>
             if e = CHR ''u'' then
               (case cs1 of
                  h1 # h2 # h3 # h4 # cs2 \<Rightarrow>
                    (case (hex_value h1, hex_value h2, hex_value h3, hex_value h4) of
                       (Some a, Some b, Some c, Some d) \<Rightarrow>
                         (let n = ((a * 16 + b) * 16 + c) * 16 + d in
                          if n < 256
                          then map_option (\<lambda>(s, r). (char_of n # s, r)) (scan_string cs2)
                          else None)
                     | _ \<Rightarrow> None)
                | _ \<Rightarrow> None)
             else
               (case unescape e of
                  None \<Rightarrow> None
                | Some x \<Rightarrow> map_option (\<lambda>(s, r). (x # s, r)) (scan_string cs1)))
      else if (of_char c :: nat) < 32 then None
      else map_option (\<lambda>(s, r). (c # s, r)) (scan_string cs))"

text \<open>The value of a run of decimal digits.\<close>

definition digits_value :: "string \<Rightarrow> nat" where
  "digits_value ds = foldl (\<lambda>n c. 10 * n + (of_char c - 48)) 0 ds"

text \<open>
  An integer: an optional minus sign and digits, without a leading zero before another
  digit and without a fraction or an exponent after them.
\<close>

definition scan_number :: "string \<Rightarrow> (json \<times> string) option" where
  "scan_number s =
     (let neg = (s \<noteq> [] \<and> hd s = CHR ''-'');
          s1 = (if neg then tl s else s);
          ds = takeWhile is_digit s1;
          rest = dropWhile is_digit s1
      in if ds = [] then None
         else if hd ds = CHR ''0'' \<and> 1 < length ds then None
         else if rest \<noteq> [] \<and> (hd rest = CHR ''.'' \<or> hd rest = CHR ''e'' \<or> hd rest = CHR ''E'') then None
         else Some (JInt (if neg then - int (digits_value ds) else int (digits_value ds)), rest))"

text \<open>\<^verbatim>\<open>d[k] = v\<close> on a dictionary kept as a list of pairs in insertion order.\<close>

fun dict_set :: "string \<Rightarrow> json \<Rightarrow> (string \<times> json) list \<Rightarrow> (string \<times> json) list" where
  "dict_set k v [] = [(k, v)]"
| "dict_set k v (p # ps) = (if fst p = k then (k, v) # ps else p # dict_set k v ps)"

text \<open>\<^verbatim>\<open>dict(pairs)\<close>\<close>

definition dict_of_pairs :: "(string \<times> json) list \<Rightarrow> (string \<times> json) list" where
  "dict_of_pairs ps = foldl (\<lambda>d kv. dict_set (fst kv) (snd kv) d) [] ps"

fun parse_value :: "nat \<Rightarrow> string \<Rightarrow> (json \<times> string) option"
  and parse_items :: "nat \<Rightarrow> string \<Rightarrow> (json list \<times> string) option"
  and parse_pairs :: "nat \<Rightarrow> string \<Rightarrow> ((string \<times> json) list \<times> string) option"
where
  "parse_value 0 s = None"
| "parse_value (Suc n) s =
     (case s of
        [] \<Rightarrow> None
      | c # cs \<Rightarrow>
          if c = CHR ''\"'' then map_option (\<lambda>(x, r). (JStr x, r)) (scan_string cs)
          else if c = CHR ''['' then
            (case skip_ws cs of
               [] \<Rightarrow> None
             | d # ds \<Rightarrow>
                 if d = CHR '']'' then Some (JList [], ds)
                 else map_option (\<lambda>(xs, r). (JList xs, r)) (parse_items n (d # ds)))
          else if c = CHR ''{'' then
            (case skip_ws cs of
               [] \<Rightarrow> None
             | d # ds \<Rightarrow>
                 if d = CHR ''}'' then Some (JDict [], ds)
                 else map_option (\<lambda>(ps, r). (JDict (dict_of_pairs ps), r)) (parse_pairs n (d # ds)))
          else if take 4 s = ''null'' then Some (JNull, drop 4 s)
          else if take 4 s = ''true'' then Some (JBool True, drop 4 s)
          else if take 5 s = ''false'' then Some (JBool False, drop 5 s)
          else scan_number s)"
| "parse_items 0 s = None"
| "parse_items (Suc n) s =
     (case parse_value n s of
        None \<Rightarrow> None
      | Some (v, r) \<Rightarrow>
          (case skip_ws r of
             [] \<Rightarrow> None
           | d # ds \<Rightarrow>
               if d = CHR '','' then
                 (case parse_items n (skip_ws ds) of
                    None \<Rightarrow> None
                  | Some (vs, r1) \<Rightarrow> Some (v # vs, r1))
               else if d = CHR '']'' then Some ([v], ds)
               else None))"
| "parse_pairs 0 s = None"
| "parse_pairs (Suc n) s =
     (case s of
        [] \<Rightarrow> None
      | q # cs \<Rightarrow>
          if q \<noteq> CHR ''\"'' then None
          else
            (case scan_string cs of
               None \<Rightarrow> None
             | Some (k, r) \<Rightarrow>
                 (case skip_ws r of
                    [] \<Rightarrow> None
                  | c # r1 \<Rightarrow>
                      if c \<noteq> CHR '':'' then None
                      else
                        (case parse_value n (skip_ws r1) of
                           None \<Rightarrow> None
                         | Some (v, r2) \<Rightarrow>
                             (case skip_ws r2 of
                                [] \<Rightarrow> None
                              | d # ds \<Rightarrow>
                                  if d = CHR '','' then
                                    (case parse_pairs n (skip_ws ds) of
                                       None \<Rightarrow> None
                                     | Some (ps, r3) \<Rightarrow> Some ((k, v) # ps, r3))
                                  else if d = CHR ''}'' then Some ([(k, v)], ds)
                                  else None)))))"

text \<open>\<^verbatim>\<open>json.loads\<close>: one value, white space around it, nothing after it.\<close>

definition loads :: "string \<Rightarrow> json option" where
  "loads s =
     (case parse_value (Suc (length s)) (skip_ws s) of
        None \<Rightarrow> None
      | Some (v, r) \<Rightarrow> if skip_ws r = [] then Some v else None)"

text \<open>The dictionary of a flag and of a file, read back field for field.\<close>

definition as_str :: "json option \<Rightarrow> string option" where
  "as_str v = (case v of Some (JStr s) \<Rightarrow> Some s | _ \<Rightarrow> None)"

definition as_int :: "json option \<Rightarrow> int option" where
  "as_int v = (case v of Some (JInt i) \<Rightarrow> Some i | _ \<Rightarrow> None)"

definition as_bool :: "json option \<Rightarrow> bool option" where
  "as_bool v = (case v of Some (JBool b) \<Rightarrow> Some b | _ \<Rightarrow> None)"

definition as_list :: "json option \<Rightarrow> json list option" where
  "as_list v = (case v of Some (JList xs) \<Rightarrow> Some xs | _ \<Rightarrow> None)"

definition flag_of_json :: "json \<Rightarrow> flag option" where
  "flag_of_json v =
     (case v of
        JDict kvs \<Rightarrow>
          if map fst kvs = [''name'', ''severity''] then
            (case (as_str (map_of kvs ''name''), as_str (map_of kvs ''severity'')) of
               (Some n, Some s) \<Rightarrow> Some \<lparr>name = n, severity = s\<rparr>
             | _ \<Rightarrow> None)
          else None
      | _ \<Rightarrow> None)"

definition file_result_of_json :: "json \<Rightarrow> file_result option" where
  "file_result_of_json v =
     (case v of
        JDict kvs \<Rightarrow>
          if map fst kvs = [''file'', ''truth_score'', ''bias_detected'', ''flag_count'', ''flags''] then
            (case (as_str (map_of kvs ''file''), as_int (map_of kvs ''truth_score''),
                   as_bool (map_of kvs ''bias_detected''), as_int (map_of kvs ''flag_count''),
                   as_list (map_of kvs ''flags'')) of
               (Some fp, Some score, Some bd, Some fc, Some fs) \<Rightarrow>
                 if 0 \<le> fc
                 then map_option (Scanned fp score bd (nat fc)) (those (map flag_of_json fs))
                 else None
             | _ \<Rightarrow> None)
          else if map fst kvs = [''file'', ''error'', ''skipped''] then
            (case (as_str (map_of kvs ''file''), as_str (map_of kvs ''error''),
                   as_bool (map_of kvs ''skipped'')) of
               (Some fp, Some e, Some True) \<Rightarrow> Some (Failed fp e)
             | _ \<Rightarrow> None)
          else None
      | _ \<Rightarrow> None)"

definition report_loads :: "string \<Rightarrow> file_result list option" where
  "report_loads s =
     (case loads s of
        Some (JList xs) \<Rightarrow> those (map file_result_of_json xs)
      | _ \<Rightarrow> None)"

subsection \<open>Notions used to prove that the report reads back\<close>

text \<open>
  A bound on the depth of calls the parser needs for a value; whether the keys of every
  dictionary in a value are distinct; the text of one entry of a dictionary; the
  characters a serialised value can start with; the texts that can follow an integer;
  and the property proved of every value: parsed with enough depth, before a text that
  may follow it, its serialisation gives the value back and leaves that text.
\<close>

definition number_end :: "string \<Rightarrow> bool" where
  "number_end rest =
     (rest = [] \<or> \<not> is_digit (hd rest) \<and> hd rest \<noteq> CHR ''.'' \<and> hd rest \<noteq> CHR ''e'' \<and> hd rest \<noteq> CHR ''E'')"

primrec fuel :: "json \<Rightarrow> nat" where
  "fuel JNull = 1"
| "fuel (JBool b) = 1"
| "fuel (JInt i) = 1"
| "fuel (JStr s) = 1"
| "fuel (JList xs) = Suc (sum_list (map Suc (map fuel xs)))"
| "fuel (JDict kvs) = Suc (sum_list (map (\<lambda>kv. Suc (snd kv)) (map (map_prod id fuel) kvs)))"

primrec distinct_keys :: "json \<Rightarrow> bool" where
  "distinct_keys JNull = True"
| "distinct_keys (JBool b) = True"
| "distinct_keys (JInt i) = True"
| "distinct_keys (JStr s) = True"
| "distinct_keys (JList xs) = list_all id (map distinct_keys xs)"
| "distinct_keys (JDict kvs) =
     (distinct (map fst kvs) \<and> list_all snd (map (map_prod id distinct_keys) kvs))"

definition dumps_pair :: "string \<times> json \<Rightarrow> string" where
  "dumps_pair kv = dumps_str (fst kv) @ '': '' @ dumps (snd kv)"

definition value_start :: "char \<Rightarrow> bool" where
  "value_start c = (\<not> is_ws c \<and> c \<noteq> CHR '']'' \<and> c \<noteq> CHR ''}'' \<and> c \<noteq> CHR '','' \<and> c \<noteq> CHR '':'')"

definition reads_back :: "json \<Rightarrow> bool" where
  "reads_back v =
     (\<forall>n rest. fuel v \<le> n \<longrightarrow> number_end rest \<longrightarrow> parse_value n (dumps v @ rest) = Some (v, rest))"

subsection \<open>The tiers as the specification words them\<close>

text \<open>
  The specification's reporting tiers, read from the score alone: flagged below the
  threshold, warn from the threshold up to 89, clean from 90.
\<close>

definition spec_tier :: "int \<Rightarrow> int \<Rightarrow> status" where
  "spec_tier thr score = (if score < thr then Red else if score < 90 then Yellow else Green)"

subsection \<open>Sample surroundings\<close>

text \<open>
  A \<^verbatim>\<open>repr\<close> that is right on the floats \<^verbatim>\<open>round(x, 1)\<close> returns for small non-negative
  \<open>x\<close>: the integer part, a point, one digit.
\<close>

definition sample_repr :: "rat \<Rightarrow> string" where
  "sample_repr x =
     (let d = round_half_even (x * 10) in str_int (d div 10) @ ''.'' @ str_int (d mod 10))"

text \<open>
  Four matched files: the analyser answers for \<^verbatim>\<open>a.md\<close> with score 95 and bias detected,
  raises on \<^verbatim>\<open>b.md\<close>, and answers for \<^verbatim>\<open>d.md\<close> with score 50 and one flag; \<^verbatim>\<open>c.md\<close> holds a
  space and a line break.
\<close>

definition world3 :: world where
  "world3 =
     \<lparr>glob_files = (\<lambda>p. [''a.md'', ''b.md'', ''c.md'', ''d.md'']),
      read_text = (\<lambda>p. if p = ''c.md'' then Inr [CHR 0x20, CHR 0x0A] else Inr p),
      scan_local = (\<lambda>text d.
        if text = ''b.md'' then Inl (Raised ''RuntimeError'' ''boom'')
        else if text = ''d.md'' then
          Inr \<lparr>truth_score_opt = Some 50,
               flags_opt = Some [\<lparr>name_opt = Some ''weasel'', severity_opt = Some ''high''\<rparr>],
               bias_detected_opt = None\<rparr>
        else Inr \<lparr>truth_score_opt = Some 95, flags_opt = None, bias_detected_opt = Some True\<rparr>),
      uuid4_hex = ''0123456789abcdef0123456789abcdef'',
      float_repr = sample_repr\<rparr>"

text \<open>Two matched files: the analyser gives no score for the first and 80 for the second.\<close>

definition world2 :: world where
  "world2 =
     \<lparr>glob_files = (\<lambda>p. [''x.md'', ''y.md'']),
      read_text = (\<lambda>p. Inr p),
      scan_local = (\<lambda>text d.
        Inr \<lparr>truth_score_opt = (if text = ''y.md'' then Some 80 else None),
             flags_opt = None, bias_detected_opt = None\<rparr>),
      uuid4_hex = ''0123456789abcdef0123456789abcdef'',
      float_repr = sample_repr\<rparr>"

text \<open>The same surroundings with a pattern that matches nothing.\<close>

definition world0 :: world where
  "world0 = world3\<lparr>glob_files := (\<lambda>p. [])\<rparr>"

text \<open>An environment with both sinks configured, and one with none.\<close>

definition env_files :: env where
  "env_files = \<lparr>GITHUB_OUTPUT = Some ''/tmp/out'', GITHUB_STEP_SUMMARY = Some ''/tmp/summary''\<rparr>"

definition env_none :: env where
  "env_none = \<lparr>GITHUB_OUTPUT = None, GITHUB_STEP_SUMMARY = None\<rparr>"

text \<open>The configuration of a run without any setting: the defaults of lines 22 to 25.\<close>

definition config70 :: config where
  "config70 =
     \<lparr>paths_pattern = ''**/*.md'', threshold = 70, domain = ''general'', fail_on_bias = True\<rparr>"

section \<open>Properties\<close>

subsection \<open>The effect of one round and of the whole loop\<close>

lemma results_emit [simp]: "results (emit x st) = results st"
  and flagged_emit [simp]: "flagged (emit x st) = flagged st"
  and total_score_emit [simp]: "total_score (emit x st) = total_score st"
  and trace_emit [simp]: "trace (emit x st) = trace st @ [x]"
  by (simp_all add: emit_def)

lemma results_except_handler [simp]:
  "results (except_handler fp e st) = results st @ [Failed fp (exn_str e)]"
  and flagged_except_handler [simp]: "flagged (except_handler fp e st) = flagged st"
  and total_score_except_handler [simp]: "total_score (except_handler fp e st) = total_score st"
  and trace_except_handler [simp]:
    "trace (except_handler fp e st) = trace st @ [Print (Scan_failed fp (exn_str e))]"
  by (simp_all add: except_handler_def Let_def)

lemma results_record_result [simp]:
  "results (record_result cfg fp r st) = results st @ [scanned_result fp r]"
  by (simp add: record_result_def scanned_result_def Let_def split: prod.splits)

lemma flagged_record_result [simp]:
  "flagged (record_result cfg fp r st) =
     (if get (bias_detected_opt r) False \<or> get (truth_score_opt r) 100 < threshold cfg
      then flagged st @ [scanned_result fp r] else flagged st)"
  by (simp add: record_result_def scanned_result_def Let_def split: prod.splits)

lemma total_score_record_result [simp]:
  "total_score (record_result cfg fp r st) = total_score st + get (truth_score_opt r) 100"
  by (simp add: record_result_def Let_def split: prod.splits)

lemma trace_record_result [simp]:
  "trace (record_result cfg fp r st) = trace st @
     (if get (bias_detected_opt r) False \<or> get (truth_score_opt r) 100 < threshold cfg
      then [Print (Warning_annotation fp (get (truth_score_opt r) 100) (length (get (flags_opt r) []))
                (join '', '' (map (\<lambda>f. get (name_opt f) []) (take 3 (get (flags_opt r) []))))),
            Print (Progress Red fp (get (truth_score_opt r) 100) (length (get (flags_opt r) [])))]
      else [Print (Progress (if get (truth_score_opt r) 100 < 90 then Yellow else Green) fp
                (get (truth_score_opt r) 100) (length (get (flags_opt r) [])))])"
  by (simp add: record_result_def Let_def split: prod.splits)

lemma opened_append [simp]: "opened (xs @ ys) = opened xs @ opened ys"
  by (induction xs rule: opened.induct) simp_all

lemma results_scan_file:
  "results (scan_file w cfg st fp) =
     results st @ (if blank w fp then [] else [file_entry w cfg fp])"
  by (simp add: scan_file_def blank_def file_entry_def Let_def split: sum.splits)

lemma is_flagged_scanned_result:
  "is_flagged cfg (scanned_result fp r) \<longleftrightarrow>
     get (bias_detected_opt r) False \<or> get (truth_score_opt r) 100 < threshold cfg"
  by (simp add: is_flagged_def scanned_result_def)

lemma flagged_scan_file:
  "flagged (scan_file w cfg st fp) =
     flagged st @ (if blank w fp then [] else filter (is_flagged cfg) [file_entry w cfg fp])"
  by (simp add: scan_file_def blank_def file_entry_def Let_def is_flagged_scanned_result
           split: sum.splits) (simp add: is_flagged_def)

lemma total_score_scan_file:
  "total_score (scan_file w cfg st fp) =
     total_score st + (if blank w fp then 0 else get_truth_score (file_entry w cfg fp) 0)"
  by (simp add: scan_file_def blank_def file_entry_def Let_def scanned_result_def split: sum.splits)

lemma opened_scan_file: "opened (trace (scan_file w cfg st fp)) = opened (trace st) @ [fp]"
  by (simp add: scan_file_def Let_def split: sum.splits)

lemma scan_files_Nil [simp]: "scan_files w cfg st [] = st"
  by (simp add: scan_files_def)

lemma scan_files_Cons [simp]:
  "scan_files w cfg st (fp # fps) = scan_files w cfg (scan_file w cfg st fp) fps"
  by (simp add: scan_files_def)

lemma scan_files_append:
  "scan_files w cfg st (xs @ ys) = scan_files w cfg (scan_files w cfg st xs) ys"
  by (simp add: scan_files_def)

lemma results_scan_files:
  "results (scan_files w cfg st files) =
     results st @ map (file_entry w cfg) (filter (\<lambda>fp. \<not> blank w fp) files)"
  by (induction files arbitrary: st) (simp_all add: results_scan_file)

lemma flagged_scan_files:
  "flagged (scan_files w cfg st files) =
     flagged st @ filter (is_flagged cfg) (map (file_entry w cfg) (filter (\<lambda>fp. \<not> blank w fp) files))"
  by (induction files arbitrary: st) (simp_all add: flagged_scan_file)

lemma total_score_scan_files:
  "total_score (scan_files w cfg st files) =
     total_score st + (\<Sum>r\<leftarrow>map (file_entry w cfg) (filter (\<lambda>fp. \<not> blank w fp) files). get_truth_score r 0)"
  by (induction files arbitrary: st) (simp_all add: total_score_scan_file)

lemma opened_scan_files: "opened (trace (scan_files w cfg st files)) = opened (trace st) @ files"
  by (induction files arbitrary: st) (simp_all add: opened_scan_file)

subsection \<open>Floating point: the error of a division and of \<^verbatim>\<open>round\<close>\<close>

lemma pow2_powi: "pow2 e = 2 powi e"
  by (simp add: pow2_def power_int_def field_simps)

lemma pow2_pos [simp]: "0 < pow2 e"
  by (simp add: pow2_powi)

lemma pow2_add: "pow2 (a + b) = pow2 a * pow2 b"
  by (simp add: pow2_powi power_int_add)

lemma pow2_mono: "a \<le> b \<Longrightarrow> pow2 a \<le> pow2 b"
  by (simp add: pow2_powi power_int_increasing)

lemma pow2_strict_mono: "a < b \<Longrightarrow> pow2 a < pow2 b"
  by (simp add: pow2_powi power_int_strict_increasing)

lemma pow2_less_iff [simp]: "pow2 a < pow2 b \<longleftrightarrow> a < b"
  using pow2_mono [of b a] pow2_strict_mono [of a b] by (auto simp add: not_less [symmetric])

lemma pow2_le_iff [simp]: "pow2 a \<le> pow2 b \<longleftrightarrow> a \<le> b"
  using pow2_mono [of a b] pow2_strict_mono [of b a] by (auto simp add: not_le [symmetric])

lemma round_half_even_error: "\<bar>of_int (round_half_even y) - y\<bar> \<le> 1 / 2"
proof -
  have "of_int \<lfloor>y\<rfloor> \<le> y" "y < of_int \<lfloor>y\<rfloor> + 1" by linarith+
  then show ?thesis
    by (auto simp add: round_half_even_def Let_def)
qed

lemma of_int_pow2_bounds:
  assumes "0 < (p :: int)"
  shows "pow2 (bitlen p - 1) \<le> of_int p" and "of_int p < pow2 (bitlen p)"
proof -
  from bitlen_bounds [OF assms]
  have a: "2 ^ nat (bitlen p - 1) \<le> p" and b: "p < 2 ^ nat (bitlen p)" by simp_all
  have p1: "1 \<le> bitlen p" using assms by (simp add: bitlen_alt_def)
  from a have "(of_int (2 ^ nat (bitlen p - 1)) :: rat) \<le> of_int p"
    by (simp only: of_int_le_iff)
  then show "pow2 (bitlen p - 1) \<le> of_int p" using p1 by (simp add: pow2_def)
  from b have "(of_int p :: rat) < of_int (2 ^ nat (bitlen p))"
    by (simp only: of_int_less_iff)
  then show "of_int p < pow2 (bitlen p)" using p1 by (simp add: pow2_def)
qed

lemma binade_bounds:
  assumes "x \<noteq> 0"
  shows "pow2 (binade x) \<le> \<bar>x\<bar>" and "\<bar>x\<bar> < pow2 (binade x + 1)"
proof -
  obtain p q where pq: "quotient_of \<bar>x\<bar> = (p, q)" by (cases "quotient_of \<bar>x\<bar>")
  then have q: "0 < q" and x: "\<bar>x\<bar> = of_int p / of_int q"
    by (simp_all add: quotient_of_denom_pos quotient_of_div)
  have qpos: "(0 :: rat) < of_int q" using q by simp
  have "0 < \<bar>x\<bar>" using assms by simp
  then have "(0 :: rat) < of_int p" using qpos by (simp add: x zero_less_divide_iff)
  then have p: "0 < p" by simp
  define e where "e = bitlen p - bitlen q"
  note P = of_int_pow2_bounds [OF p]
  note Q = of_int_pow2_bounds [OF q]
  have up: "\<bar>x\<bar> < pow2 (e + 1)"
  proof -
    have "of_int p < pow2 (e + 1) * pow2 (bitlen q - 1)"
      using P(2) by (simp add: pow2_add [symmetric] e_def)
    also have "\<dots> \<le> pow2 (e + 1) * of_int q"
      using Q(1) by simp
    finally show ?thesis using qpos by (simp add: x pos_divide_less_eq)
  qed
  have lo: "pow2 (e - 1) < \<bar>x\<bar>"
  proof -
    have "pow2 (e - 1) * of_int q < pow2 (e - 1) * pow2 (bitlen q)"
      using Q(2) by simp
    also have "\<dots> = pow2 (bitlen p - 1)"
      by (simp add: pow2_add [symmetric] e_def)
    also have "\<dots> \<le> of_int p" by (rule P(1))
    finally show ?thesis using qpos by (simp add: x pos_less_divide_eq)
  qed
  have b: "binade x = (if pow2 e \<le> \<bar>x\<bar> then e else e - 1)"
    by (simp add: binade_def pq e_def Let_def)
  show "pow2 (binade x) \<le> \<bar>x\<bar>" using lo by (simp add: b)
  show "\<bar>x\<bar> < pow2 (binade x + 1)" using up by (simp add: b)
qed

lemma pow2_half: "pow2 (e - 53) = 1 / 2 * pow2 (e - 52)"
proof -
  have "pow2 (e - 52) = pow2 (e - 53) * pow2 1" by (simp add: pow2_add [symmetric])
  then show ?thesis by (simp add: pow2_def)
qed

lemma fl64_error:
  assumes "x \<noteq> 0" and "- 1022 \<le> binade x"
  shows "\<bar>fl64 x - x\<bar> \<le> \<bar>x\<bar> * pow2 (- 53)"
proof -
  define u where "u = pow2 (binade x - 52)"
  have u: "0 < u" by (simp add: u_def)
  have f: "fl64 x = of_int (round_half_even (x / u)) * u"
    using assms by (simp add: fl64_def u_def max_def Let_def)
  have "fl64 x - x = (of_int (round_half_even (x / u)) - x / u) * u"
    using u by (simp add: f left_diff_distrib)
  then have "\<bar>fl64 x - x\<bar> = \<bar>of_int (round_half_even (x / u)) - x / u\<bar> * u"
    using u by (simp add: abs_mult)
  also have "\<dots> \<le> 1 / 2 * u"
    using round_half_even_error [of "x / u"] u by (simp add: mult_right_mono)
  also have "\<dots> = pow2 (binade x - 53)"
    by (simp add: u_def pow2_half)
  also have "\<dots> = pow2 (binade x) * pow2 (- 53)"
    by (simp add: pow2_add [symmetric])
  also have "\<dots> \<le> \<bar>x\<bar> * pow2 (- 53)"
    using binade_bounds(1) [OF assms(1)] by (simp add: mult_right_mono)
  finally show ?thesis .
qed

lemma pow2_neg53: "pow2 (- 53) = 1 / 9007199254740992"
  by (simp add: pow2_def)

lemma truediv_error:
  assumes "0 \<le> t" and "t \<le> 100 * n" and "1 \<le> n" and "n < 2 ^ 40"
  shows "\<exists>x. truediv t n = Inr x \<and> \<bar>x - of_int t / of_int n\<bar> \<le> 100 / 9007199254740992"
proof -
  define q :: rat where "q = of_int t / of_int n"
  have N: "(0 :: rat) < of_int n" using assms(3) by simp
  have q0: "0 \<le> q" using assms(1) N by (simp add: q_def)
  have "(of_int t :: rat) \<le> of_int (100 * n)" using assms(2) by (simp only: of_int_le_iff)
  then have q100: "q \<le> 100" using N by (simp add: q_def pos_divide_le_eq)
  have err: "\<bar>fl64 q - q\<bar> \<le> 100 / 9007199254740992"
  proof (cases "t = 0")
    case True
    then show ?thesis by (simp add: q_def fl64_def)
  next
    case False
    with assms(1) have "1 \<le> t" by simp
    then have "(1 :: rat) \<le> of_int t" by simp
    then have "1 / of_int n \<le> q" using N by (simp add: q_def divide_right_mono)
    moreover have "(of_int n :: rat) < of_int (2 ^ 40)" using assms(4) by (simp only: of_int_less_iff)
    then have "pow2 (- 40) < 1 / (of_int n :: rat)"
      using N by (simp add: pow2_def field_simps)
    ultimately have lo: "pow2 (- 40) < q" by simp
    have qn: "q \<noteq> 0" using lo pow2_pos [of "- 40"] by linarith
    from binade_bounds(2) [OF qn] lo q0 have "pow2 (- 40) < pow2 (binade q + 1)" by linarith
    then have "- 40 < binade q + 1" by (simp only: pow2_less_iff)
    then have "- 1022 \<le> binade q" by simp
    from fl64_error [OF qn this] have "\<bar>fl64 q - q\<bar> \<le> q * pow2 (- 53)" using q0 by simp
    also have "\<dots> \<le> 100 * pow2 (- 53)" using q100 by (simp add: mult_right_mono)
    finally show ?thesis by (simp add: pow2_neg53)
  qed
  then have "\<bar>fl64 q\<bar> \<le> 101" using q0 q100 by linarith
  moreover have "(101 :: rat) < pow2 1024"
  proof -
    have "pow2 7 \<le> pow2 1024" by simp
    then show ?thesis by (simp add: pow2_def [of 7])
  qed
  ultimately have "\<not> pow2 1024 \<le> \<bar>fl64 q\<bar>" by linarith
  then have "truediv t n = Inr (fl64 q)"
    using assms(3) by (simp add: truediv_def q_def Let_def)
  with err show ?thesis by (auto simp add: q_def)
qed

lemma round1_near:
  assumes "1 \<le> n" and "n < 2 ^ 40"
    and "\<bar>x - of_int t / of_int n\<bar> \<le> 100 / 9007199254740992"
  shows "\<bar>of_int (round_half_even (x * 10)) / 10 - of_int t / of_int n\<bar> \<le> (1 / 20 :: rat)"
proof (rule ccontr)
  define d where "d = round_half_even (x * 10)"
  define N :: rat where "N = of_int n"
  define T :: rat where "T = of_int t"
  define D :: rat where "D = of_int d"
  assume "\<not> \<bar>of_int (round_half_even (x * 10)) / 10 - of_int t / of_int n\<bar> \<le> (1 / 20 :: rat)"
  then have far: "1 / 20 < \<bar>D / 10 - T / N\<bar>" by (simp add: d_def N_def T_def D_def)
  have N: "0 < N" "N < 2 ^ 40"
    using assms(1) apply (simp add: N_def)
    using assms(2) unfolding N_def by (metis of_int_less_iff of_int_numeral of_int_power)
  have "D / 10 - T / N = (2 * D * N - 20 * T) / (20 * N)"
    using N(1) by (simp add: field_simps)
  then have "\<bar>D / 10 - T / N\<bar> = \<bar>2 * D * N - 20 * T\<bar> / (20 * N)"
    using N(1) by simp
  with far have "N < \<bar>2 * D * N - 20 * T\<bar>"
    using N(1) by (simp add: field_simps)
  then have "(of_int n :: rat) < of_int \<bar>2 * d * n - 20 * t\<bar>"
    by (simp add: N_def D_def T_def)
  then have "n < \<bar>2 * d * n - 20 * t\<bar>" by (simp only: of_int_less_iff)
  then have "n + 1 \<le> \<bar>2 * d * n - 20 * t\<bar>" by simp
  then have "(of_int (n + 1) :: rat) \<le> of_int \<bar>2 * d * n - 20 * t\<bar>" by (simp only: of_int_le_iff)
  then have "N + 1 \<le> \<bar>2 * D * N - 20 * T\<bar>" by (simp add: N_def D_def T_def)
  then have "(N + 1) / (20 * N) \<le> \<bar>2 * D * N - 20 * T\<bar> / (20 * N)"
    using N(1) by (simp add: divide_right_mono)
  also have "\<dots> = \<bar>D / 10 - T / N\<bar>"
    using \<open>\<bar>D / 10 - T / N\<bar> = \<bar>2 * D * N - 20 * T\<bar> / (20 * N)\<close> by simp
  finally have big: "1 / 20 + 1 / (20 * N) \<le> \<bar>D / 10 - T / N\<bar>"
    using N(1) by (simp add: field_simps)
  have "\<bar>D - x * 10\<bar> \<le> 1 / 2"
    unfolding D_def d_def by (rule round_half_even_error)
  then have "\<bar>D / 10 - x\<bar> \<le> 1 / 20" by (simp add: abs_if split: if_splits)
  moreover have "\<bar>x - T / N\<bar> \<le> 100 / 9007199254740992"
    using assms(3) by (simp add: N_def T_def)
  ultimately have small: "\<bar>D / 10 - T / N\<bar> \<le> 1 / 20 + 100 / 9007199254740992" by linarith
  have "20 * N < 20 * 2 ^ 40" using N(2) by simp
  then have "1 / (20 * 2 ^ 40) < 1 / (20 * N)"
    using N(1) by (simp add: frac_less2)
  moreover have "(100 :: rat) / 9007199254740992 < 1 / (20 * 2 ^ 40)" by simp
  ultimately show False using big small by linarith
qed

subsection \<open>Reading back what \<open>dumps\<close> writes\<close>

lemma hex_value_hex_digit: "k < 16 \<Longrightarrow> hex_value (hex_digit k) = Some k"
  by (simp add: hex_value_def hex_digit_def Let_def)

lemma hex_value_zero: "hex_value CHR ''0'' = Some 0"
  by (simp add: hex_value_def)

lemma of_char_lt_256: "(of_char (c :: char) :: nat) < 256"
  by (cases c) simp

lemma scan_string_backslash_u:
  assumes "hex_value h1 = Some a" "hex_value h2 = Some b" "hex_value h3 = Some c" "hex_value h4 = Some d"
    and "((a * 16 + b) * 16 + c) * 16 + d < 256"
  shows "scan_string (CHR 0x5C # CHR ''u'' # h1 # h2 # h3 # h4 # rest) =
           map_option (\<lambda>(s, r). (char_of (((a * 16 + b) * 16 + c) * 16 + d) # s, r)) (scan_string rest)"
  using assms by simp

lemma scan_string_backslash:
  assumes "unescape e = Some x" and "e \<noteq> CHR ''u''"
  shows "scan_string (CHR 0x5C # e # rest) = map_option (\<lambda>(s, r). (x # s, r)) (scan_string rest)"
  using assms by simp

lemma scan_string_plain:
  assumes "c \<noteq> CHR ''\"''" and "c \<noteq> CHR 0x5C" and "32 \<le> (of_char c :: nat)"
  shows "scan_string (c # rest) = map_option (\<lambda>(s, r). (c # s, r)) (scan_string rest)"
  using assms by simp

lemma scan_string_quote: "scan_string (CHR ''\"'' # rest) = Some ([], rest)"
  by simp

declare scan_string.simps [simp del]

lemma scan_string_escape:
  "scan_string (escape_char c @ rest) = map_option (\<lambda>(s, r). (c # s, r)) (scan_string rest)"
proof -
  let ?n = "of_char c :: nat"
  have n: "?n < 256" by (rule of_char_lt_256)
  consider (special) "c = CHR ''\"'' \<or> c = CHR 0x5C \<or> c = CHR 0x0A \<or> c = CHR 0x0D \<or> c = CHR 0x09
        \<or> c = CHR 0x08 \<or> c = CHR 0x0C"
    | (plain) "c \<noteq> CHR ''\"''" "c \<noteq> CHR 0x5C" "c \<noteq> CHR 0x0A" "c \<noteq> CHR 0x0D" "c \<noteq> CHR 0x09"
        "c \<noteq> CHR 0x08" "c \<noteq> CHR 0x0C" "32 \<le> ?n \<and> ?n \<le> 126"
    | (other) "c \<noteq> CHR ''\"''" "c \<noteq> CHR 0x5C" "c \<noteq> CHR 0x0A" "c \<noteq> CHR 0x0D" "c \<noteq> CHR 0x09"
        "c \<noteq> CHR 0x08" "c \<noteq> CHR 0x0C" "\<not> (32 \<le> ?n \<and> ?n \<le> 126)"
    by blast
  then show ?thesis
  proof cases
    case special
    then show ?thesis
      by (elim disjE) (simp_all add: escape_char_def scan_string_backslash unescape_def)
  next
    case plain
    then show ?thesis
      by (simp add: escape_char_def scan_string_plain)
  next
    case other
    have d: "?n div 16 < 16" using n by (intro less_mult_imp_div_less) simp
    have m: "?n mod 16 < 16" by simp
    have v: "((0 * 16 + 0) * 16 + ?n div 16) * 16 + ?n mod 16 = ?n" by simp
    have "scan_string (CHR 0x5C # CHR ''u'' # CHR ''0'' # CHR ''0'' # hex_digit (?n div 16)
            # hex_digit (?n mod 16) # rest) =
          map_option (\<lambda>(s, r). (char_of (((0 * 16 + 0) * 16 + ?n div 16) * 16 + ?n mod 16) # s, r))
            (scan_string rest)"
      by (rule scan_string_backslash_u)
        (simp_all add: hex_value_zero hex_value_hex_digit [OF d] hex_value_hex_digit [OF m] n)
    then show ?thesis using other
      by (auto simp add: escape_char_def v)
  qed
qed

lemma scan_string_dumps:
  "scan_string (concat (map escape_char s) @ CHR ''\"'' # rest) = Some (s, rest)"
  by (induction s) (simp_all add: scan_string_quote scan_string_escape)

lemma str_nat_0: "str_nat 0 = ''0''"
  by code_simp

lemma is_digit_char_of: "k < 10 \<Longrightarrow> is_digit (char_of (48 + k :: nat))"
  by (simp add: is_digit_def)

lemma digit_value_char_of: "k < 10 \<Longrightarrow> (of_char (char_of (48 + k :: nat)) :: nat) - 48 = k"
  by simp

lemma str_nat_nonempty: "str_nat n \<noteq> []"
  by (subst str_nat.simps) simp

lemma str_nat_digits: "c \<in> set (str_nat n) \<Longrightarrow> is_digit c"
proof (induction n arbitrary: c rule: str_nat.induct)
  case (1 n)
  show ?case
  proof (cases "n < 10")
    case True
    with "1.prems" show ?thesis
      by (subst (asm) str_nat.simps) (simp add: is_digit_char_of)
  next
    case False
    with "1.prems" have "c \<in> set (str_nat (n div 10)) \<or> c = char_of (48 + n mod 10)"
      by (subst (asm) str_nat.simps) auto
    with "1.IH" [OF False] show ?thesis
      by (auto simp add: is_digit_char_of)
  qed
qed

lemma digits_value_snoc: "digits_value (ds @ [c]) = 10 * digits_value ds + (of_char c - 48)"
  by (simp add: digits_value_def)

lemma digits_value_str_nat: "digits_value (str_nat n) = n"
proof (induction n rule: str_nat.induct)
  case (1 n)
  show ?case
  proof (cases "n < 10")
    case True
    then show ?thesis
      by (subst str_nat.simps) (simp add: digits_value_def)
  next
    case False
    with "1.IH" show ?thesis
      by (subst str_nat.simps) (simp add: digits_value_snoc)
  qed
qed

lemma hd_str_nat_zero: "hd (str_nat n) = CHR ''0'' \<Longrightarrow> str_nat n = ''0''"
proof (induction n rule: str_nat.induct)
  case (1 n)
  show ?case
  proof (cases "n < 10")
    case True
    with "1.prems" have "char_of (48 + n) = CHR ''0''"
      by (subst (asm) str_nat.simps) simp
    then have "of_char (char_of (48 + n)) = (of_char CHR ''0'' :: nat)" by simp
    with True have "n = 0" by simp
    then show ?thesis by (simp add: str_nat_0)
  next
    case False
    with "1.prems" have "hd (str_nat (n div 10)) = CHR ''0''"
      by (subst (asm) str_nat.simps) (simp add: str_nat_nonempty)
    from "1.IH" [OF False this] have "digits_value (str_nat (n div 10)) = digits_value ''0''" by simp
    then have "n div 10 = digits_value ''0''" by (simp only: digits_value_str_nat)
    then have "n div 10 = 0" by (simp add: digits_value_def)
    with False show ?thesis by simp
  qed
qed

lemma takeWhile_str_nat:
  assumes "number_end rest"
  shows "takeWhile is_digit (str_nat n @ rest) = str_nat n"
    and "dropWhile is_digit (str_nat n @ rest) = rest"
proof -
  have a: "\<forall>c \<in> set (str_nat n). is_digit c" using str_nat_digits by blast
  have b: "takeWhile is_digit rest = []" "dropWhile is_digit rest = rest"
    using assms by (cases rest; simp add: number_end_def)+
  show "takeWhile is_digit (str_nat n @ rest) = str_nat n"
    using a b by simp
  show "dropWhile is_digit (str_nat n @ rest) = rest"
    using a b by simp
qed

lemma hd_str_nat_not_minus: "hd (str_nat n) \<noteq> CHR ''-''"
proof -
  have "hd (str_nat n) \<in> set (str_nat n)" using str_nat_nonempty by simp
  then have "is_digit (hd (str_nat n))" by (rule str_nat_digits)
  then show ?thesis by (auto simp add: is_digit_def)
qed

lemma scan_number_str_nat:
  assumes "number_end rest"
  shows "scan_number (str_nat n @ rest) = Some (JInt (int n), rest)"
proof -
  have z: "\<not> (hd (str_nat n) = CHR ''0'' \<and> 1 < length (str_nat n))"
    using hd_str_nat_zero [of n] by auto
  have e: "\<not> (rest \<noteq> [] \<and> (hd rest = CHR ''.'' \<or> hd rest = CHR ''e'' \<or> hd rest = CHR ''E''))"
    using assms by (auto simp add: number_end_def)
  show ?thesis
    using z e
    by (simp add: scan_number_def Let_def str_nat_nonempty hd_append hd_str_nat_not_minus
        takeWhile_str_nat [OF assms] digits_value_str_nat)
qed

lemma scan_number_minus_str_nat:
  assumes "number_end rest" and "0 < n"
  shows "scan_number (CHR ''-'' # str_nat n @ rest) = Some (JInt (- int n), rest)"
proof -
  have z: "\<not> (hd (str_nat n) = CHR ''0'' \<and> 1 < length (str_nat n))"
    using hd_str_nat_zero [of n] by auto
  have e: "\<not> (rest \<noteq> [] \<and> (hd rest = CHR ''.'' \<or> hd rest = CHR ''e'' \<or> hd rest = CHR ''E''))"
    using assms by (auto simp add: number_end_def)
  show ?thesis
    using z e
    by (simp add: scan_number_def Let_def str_nat_nonempty
        takeWhile_str_nat [OF assms(1)] digits_value_str_nat)
qed

lemma scan_number_str_int:
  assumes "number_end rest"
  shows "scan_number (str_int i @ rest) = Some (JInt i, rest)"
proof (cases "i < 0")
  case True
  then have "0 < nat (- i)" by simp
  from scan_number_minus_str_nat [OF assms this] True show ?thesis
    by (simp add: str_int_def)
next
  case False
  with scan_number_str_nat [OF assms, of "nat i"] show ?thesis
    by (simp add: str_int_def)
qed

lemma dumps_JDict: "dumps (JDict kvs) = ''{'' @ join '', '' (map dumps_pair kvs) @ ''}''"
proof -
  have "dumps_pair = (\<lambda>kv. dumps_str (fst kv) @ '': '' @ dumps (snd kv))"
    by (rule ext) (simp add: dumps_pair_def)
  then show ?thesis by (simp add: o_def)
qed

lemma fuel_JDict: "fuel (JDict kvs) = Suc (sum_list (map (\<lambda>kv. Suc (fuel (snd kv))) kvs))"
  by (simp add: o_def)

lemma distinct_keys_JList: "distinct_keys (JList xs) \<longleftrightarrow> (\<forall>x \<in> set xs. distinct_keys x)"
  by (simp add: list_all_iff)

lemma distinct_keys_JDict:
  "distinct_keys (JDict kvs) \<longleftrightarrow> distinct (map fst kvs) \<and> (\<forall>kv \<in> set kvs. distinct_keys (snd kv))"
  by (auto simp add: list_all_iff)

lemma str_int_first:
  "\<exists>c cs. str_int i = c # cs \<and> (is_digit c \<or> c = CHR ''-'')"
proof (cases "i < 0")
  case True
  then show ?thesis by (simp add: str_int_def)
next
  case False
  obtain c cs where s: "str_nat (nat i) = c # cs"
    using str_nat_nonempty [of "nat i"] by (cases "str_nat (nat i)") auto
  then have "c \<in> set (str_nat (nat i))" by simp
  then have "is_digit c" by (rule str_nat_digits)
  with False s show ?thesis by (simp add: str_int_def)
qed

lemma dumps_first: "\<exists>c cs. dumps v = c # cs \<and> value_start c"
proof (cases v)
  case (JInt i)
  from str_int_first [of i] obtain c cs where "str_int i = c # cs" "is_digit c \<or> c = CHR ''-''"
    by blast
  with JInt show ?thesis
    by (auto simp add: value_start_def is_ws_def is_digit_def)
qed (simp_all add: value_start_def is_ws_def dumps_str_def)

lemma skip_ws_start: "value_start c \<Longrightarrow> skip_ws (c # cs) = c # cs"
  by (simp add: skip_ws_def value_start_def)

lemma skip_ws_dumps: "skip_ws (dumps v @ rest) = dumps v @ rest"
  using dumps_first [of v] by (auto simp add: skip_ws_start)

lemma skip_ws_space_dumps: "skip_ws (CHR '' '' # dumps v @ rest) = dumps v @ rest"
  using skip_ws_dumps [of v rest] by (simp add: skip_ws_def is_ws_def)

lemma number_end_simps [simp]:
  "number_end []" "number_end (CHR '']'' # r)" "number_end (CHR ''}'' # r)"
  "number_end (CHR '','' # r)"
  by (simp_all add: number_end_def is_digit_def)

lemma skip_ws_simps [simp]:
  "skip_ws [] = []" "skip_ws (CHR '']'' # r) = CHR '']'' # r" "skip_ws (CHR ''}'' # r) = CHR ''}'' # r"
  "skip_ws (CHR '','' # r) = CHR '','' # r" "skip_ws (CHR '':'' # r) = CHR '':'' # r"
  by (simp_all add: skip_ws_def is_ws_def)

lemma parse_value_null: "parse_value (Suc n) (''null'' @ rest) = Some (JNull, rest)"
  by simp

lemma parse_value_bool:
  "parse_value (Suc n) ((if b then ''true'' else ''false'') @ rest) = Some (JBool b, rest)"
  by simp

lemma parse_value_str: "parse_value (Suc n) (dumps_str s @ rest) = Some (JStr s, rest)"
  by (simp add: dumps_str_def scan_string_dumps)

lemma parse_value_int:
  assumes "number_end rest"
  shows "parse_value (Suc n) (str_int i @ rest) = Some (JInt i, rest)"
proof -
  from str_int_first [of i] obtain c cs where
    s: "str_int i = c # cs" and c: "is_digit c \<or> c = CHR ''-''" by blast
  from c have "c \<noteq> CHR ''\"''" "c \<noteq> CHR ''[''" "c \<noteq> CHR ''{''"
    "c \<noteq> CHR ''n''" "c \<noteq> CHR ''t''" "c \<noteq> CHR ''f''"
    by (auto simp add: is_digit_def)
  then have "parse_value (Suc n) (c # cs @ rest) = scan_number (c # cs @ rest)"
    by simp
  with scan_number_str_int [OF assms, of i] s show ?thesis by simp
qed

lemma parse_value_empty_list: "parse_value (Suc n) (''[]'' @ rest) = Some (JList [], rest)"
  by simp

lemma parse_value_empty_dict: "parse_value (Suc n) (''{}'' @ rest) = Some (JDict [], rest)"
  by simp

lemma parse_value_list:
  assumes "value_start c"
  shows "parse_value (Suc n) (CHR ''['' # c # cs) =
           map_option (\<lambda>(xs, r). (JList xs, r)) (parse_items n (c # cs))"
  using assms by (simp add: skip_ws_start) (simp add: value_start_def)

lemma parse_value_dict:
  "parse_value (Suc n) (CHR ''{'' # CHR ''\"'' # cs) =
           map_option (\<lambda>(ps, r). (JDict (dict_of_pairs ps), r)) (parse_pairs n (CHR ''\"'' # cs))"
  by (simp add: skip_ws_def is_ws_def)

lemma parse_items_last:
  assumes "parse_value n s = Some (v, CHR '']'' # rest)"
  shows "parse_items (Suc n) s = Some ([v], rest)"
  using assms by simp

lemma parse_items_more:
  assumes "parse_value n s = Some (v, CHR '','' # CHR '' '' # s1)"
    and "skip_ws (CHR '' '' # s1) = s1"
    and "parse_items n s1 = Some (vs, rest)"
  shows "parse_items (Suc n) s = Some (v # vs, rest)"
  using assms by simp

lemma parse_pairs_last:
  assumes "parse_value n s = Some (v, CHR ''}'' # rest)"
    and "skip_ws (CHR '' '' # s) = s"
  shows "parse_pairs (Suc n) (dumps_str k @ '': '' @ s) = Some ([(k, v)], rest)"
  using assms by (simp add: dumps_str_def scan_string_dumps)

lemma parse_pairs_more:
  assumes "parse_value n s = Some (v, CHR '','' # CHR '' '' # s1)"
    and "skip_ws (CHR '' '' # s) = s"
    and "skip_ws (CHR '' '' # s1) = s1"
    and "parse_pairs n s1 = Some (ps, rest)"
  shows "parse_pairs (Suc n) (dumps_str k @ '': '' @ s) = Some ((k, v) # ps, rest)"
  using assms by (simp add: dumps_str_def scan_string_dumps)

declare parse_value.simps [simp del] parse_items.simps [simp del] parse_pairs.simps [simp del]

lemma join_Cons2: "xs \<noteq> [] \<Longrightarrow> join sep (x # xs) = x @ sep @ join sep xs"
  by (cases xs) simp_all

lemma parse_items_reads_back:
  assumes "\<forall>x \<in> set xs. reads_back x" and "xs \<noteq> []"
    and "sum_list (map Suc (map fuel xs)) \<le> m"
  shows "parse_items m (join '', '' (map dumps xs) @ CHR '']'' # rest) = Some (xs, rest)"
  using assms
proof (induction xs arbitrary: m)
  case Nil
  then show ?case by simp
next
  case (Cons x xs)
  from Cons.prems(3) obtain m' where m: "m = Suc m'" and fx: "fuel x \<le> m'"
    and fxs: "sum_list (map Suc (map fuel xs)) \<le> m'"
    by (cases m) auto
  from Cons.prems(1) have rx: "reads_back x" by simp
  show ?case
  proof (cases "xs = []")
    case True
    from rx fx have "parse_value m' (dumps x @ CHR '']'' # rest) = Some (x, CHR '']'' # rest)"
      by (simp add: reads_back_def)
    then show ?thesis using True by (simp add: m parse_items_last)
  next
    case False
    let ?s1 = "join '', '' (map dumps xs) @ CHR '']'' # rest"
    from False obtain y ys where xs: "xs = y # ys" by (cases xs) auto
    have sk: "skip_ws (CHR '' '' # ?s1) = ?s1"
    proof (cases "ys = []")
      case True
      then show ?thesis using skip_ws_space_dumps [of y "CHR '']'' # rest"] by (simp add: xs)
    next
      case False
      then show ?thesis
        using skip_ws_space_dumps [of y "'', '' @ join '', '' (map dumps ys) @ CHR '']'' # rest"]
        by (simp add: xs join_Cons2)
    qed
    from rx fx have a: "parse_value m' (dumps x @ CHR '','' # CHR '' '' # ?s1) =
        Some (x, CHR '','' # CHR '' '' # ?s1)"
      by (simp add: reads_back_def)
    from Cons.IH [OF _ False fxs] Cons.prems(1)
    have b: "parse_items m' ?s1 = Some (xs, rest)" by simp
    have "parse_items (Suc m') (dumps x @ CHR '','' # CHR '' '' # ?s1) = Some (x # xs, rest)"
      by (rule parse_items_more [OF a sk b])
    then show ?thesis using False by (simp add: m join_Cons2)
  qed
qed

lemma dumps_pair_Pair: "dumps_pair (k, v) = dumps_str k @ '': '' @ dumps v"
  by (simp add: dumps_pair_def)

lemma parse_pairs_reads_back:
  assumes "\<forall>kv \<in> set kvs. reads_back (snd kv)" and "kvs \<noteq> []"
    and "sum_list (map (\<lambda>kv. Suc (fuel (snd kv))) kvs) \<le> m"
  shows "parse_pairs m (join '', '' (map dumps_pair kvs) @ CHR ''}'' # rest) = Some (kvs, rest)"
  using assms
proof (induction kvs arbitrary: m)
  case Nil
  then show ?case by simp
next
  case (Cons kv kvs)
  obtain k v where kv: "kv = (k, v)" by (cases kv)
  from Cons.prems(3) obtain m' where m: "m = Suc m'" and fx: "fuel v \<le> m'"
    and fxs: "sum_list (map (\<lambda>kv. Suc (fuel (snd kv))) kvs) \<le> m'"
    by (cases m) (auto simp add: kv)
  from Cons.prems(1) have rx: "reads_back v" by (simp add: kv)
  have sv: "\<And>r. skip_ws (CHR '' '' # dumps v @ r) = dumps v @ r"
    by (rule skip_ws_space_dumps)
  show ?case
  proof (cases "kvs = []")
    case True
    from rx fx have "parse_value m' (dumps v @ CHR ''}'' # rest) = Some (v, CHR ''}'' # rest)"
      by (simp add: reads_back_def)
    from parse_pairs_last [OF this sv, of k] show ?thesis
      using True by (simp add: m kv dumps_pair_Pair)
  next
    case False
    let ?s1 = "join '', '' (map dumps_pair kvs) @ CHR ''}'' # rest"
    have sk: "skip_ws (CHR '' '' # ?s1) = ?s1"
    proof -
      from False obtain cs where "?s1 = CHR ''\"'' # cs"
        by (cases kvs; cases "tl kvs") (auto simp add: dumps_pair_def dumps_str_def)
      then show ?thesis by (simp add: skip_ws_def is_ws_def)
    qed
    from rx fx have a: "parse_value m' (dumps v @ CHR '','' # CHR '' '' # ?s1) =
        Some (v, CHR '','' # CHR '' '' # ?s1)"
      by (simp add: reads_back_def)
    from Cons.IH [OF _ False fxs] Cons.prems(1)
    have b: "parse_pairs m' ?s1 = Some (kvs, rest)" by simp
    have "parse_pairs (Suc m') (dumps_str k @ '': '' @ dumps v @ CHR '','' # CHR '' '' # ?s1)
        = Some ((k, v) # kvs, rest)"
      by (rule parse_pairs_more [OF a sv sk b])
    then show ?thesis using False by (simp add: m kv join_Cons2 dumps_pair_Pair)
  qed
qed

lemma dict_set_fresh: "k \<notin> fst ` set d \<Longrightarrow> dict_set k v d = d @ [(k, v)]"
  by (induction d) auto

lemma foldl_dict_set:
  "distinct (map fst (d @ ps)) \<Longrightarrow>
     foldl (\<lambda>d kv. dict_set (fst kv) (snd kv) d) d ps = d @ ps"
proof (induction ps arbitrary: d)
  case Nil
  then show ?case by simp
next
  case (Cons p ps)
  from Cons.prems have "fst p \<notin> fst ` set d" by auto
  then have "dict_set (fst p) (snd p) d = d @ [p]" by (simp add: dict_set_fresh)
  moreover from Cons.prems have "distinct (map fst ((d @ [p]) @ ps))" by simp
  ultimately show ?case using Cons.IH [of "d @ [p]"] by simp
qed

lemma dict_of_pairs_distinct: "distinct (map fst ps) \<Longrightarrow> dict_of_pairs ps = ps"
  using foldl_dict_set [of "[]" ps] by (simp add: dict_of_pairs_def)

lemma reads_back_list:
  assumes "\<forall>x \<in> set xs. reads_back x"
  shows "reads_back (JList xs)"
  unfolding reads_back_def
proof (intro allI impI)
  fix n rest
  assume f: "fuel (JList xs) \<le> n" and "number_end rest"
  then obtain m where n: "n = Suc m" and m: "sum_list (map Suc (map fuel xs)) \<le> m"
    by (cases n) auto
  show "parse_value n (dumps (JList xs) @ rest) = Some (JList xs, rest)"
  proof (cases "xs = []")
    case True
    then show ?thesis using parse_value_empty_list [of m rest] by (simp add: n)
  next
    case False
    then obtain y ys where xs: "xs = y # ys" by (cases xs) auto
    from dumps_first [of y] obtain c cs where d: "dumps y = c # cs" and c: "value_start c" by blast
    let ?body = "join '', '' (map dumps xs) @ CHR '']'' # rest"
    obtain cs' where b: "?body = c # cs'"
      by (cases ys) (simp_all add: xs d)
    from parse_items_reads_back [OF assms False m]
    have "parse_items m ?body = Some (xs, rest)" .
    with parse_value_list [OF c, of m cs'] b
    have "parse_value (Suc m) (CHR ''['' # ?body) = Some (JList xs, rest)" by simp
    then show ?thesis by (simp add: n)
  qed
qed

lemma reads_back_dict:
  assumes "\<forall>kv \<in> set kvs. reads_back (snd kv)" and "distinct (map fst kvs)"
  shows "reads_back (JDict kvs)"
  unfolding reads_back_def
proof (intro allI impI)
  fix n rest
  assume f: "fuel (JDict kvs) \<le> n" and "number_end rest"
  then obtain m where n: "n = Suc m" and m: "sum_list (map (\<lambda>kv. Suc (fuel (snd kv))) kvs) \<le> m"
    by (cases n) (auto simp add: fuel_JDict simp del: fuel.simps)
  show "parse_value n (dumps (JDict kvs) @ rest) = Some (JDict kvs, rest)"
  proof (cases "kvs = []")
    case True
    then show ?thesis using parse_value_empty_dict [of m rest] by (simp add: n)
  next
    case False
    let ?body = "join '', '' (map dumps_pair kvs) @ CHR ''}'' # rest"
    from False obtain cs where b: "?body = CHR ''\"'' # cs"
      by (cases kvs; cases "tl kvs") (auto simp add: dumps_pair_def dumps_str_def)
    from parse_pairs_reads_back [OF assms(1) False m]
    have "parse_pairs m ?body = Some (kvs, rest)" .
    with parse_value_dict [of m cs] b
    have "parse_value (Suc m) (CHR ''{'' # ?body) = Some (JDict (dict_of_pairs kvs), rest)" by simp
    then show ?thesis
      by (simp add: n dumps_JDict dict_of_pairs_distinct [OF assms(2)] del: dumps.simps)
  qed
qed

lemma reads_back_atom:
  "reads_back JNull" "reads_back (JBool b)" "reads_back (JInt i)" "reads_back (JStr s)"
  unfolding reads_back_def
proof -
  show "\<forall>n rest. fuel JNull \<le> n \<longrightarrow> number_end rest \<longrightarrow>
      parse_value n (dumps JNull @ rest) = Some (JNull, rest)"
  proof (intro allI impI)
    fix n :: nat and rest
    assume "fuel JNull \<le> n"
    then obtain m where "n = Suc m" by (cases n) auto
    then show "parse_value n (dumps JNull @ rest) = Some (JNull, rest)"
      using parse_value_null [of m rest] by simp
  qed
  show "\<forall>n rest. fuel (JBool b) \<le> n \<longrightarrow> number_end rest \<longrightarrow>
      parse_value n (dumps (JBool b) @ rest) = Some (JBool b, rest)"
  proof (intro allI impI)
    fix n :: nat and rest
    assume "fuel (JBool b) \<le> n"
    then obtain m where "n = Suc m" by (cases n) auto
    then show "parse_value n (dumps (JBool b) @ rest) = Some (JBool b, rest)"
      using parse_value_bool [of m b rest] by simp
  qed
  show "\<forall>n rest. fuel (JInt i) \<le> n \<longrightarrow> number_end rest \<longrightarrow>
      parse_value n (dumps (JInt i) @ rest) = Some (JInt i, rest)"
  proof (intro allI impI)
    fix n :: nat and rest
    assume "fuel (JInt i) \<le> n" and e: "number_end rest"
    then obtain m where "n = Suc m" by (cases n) auto
    then show "parse_value n (dumps (JInt i) @ rest) = Some (JInt i, rest)"
      using parse_value_int [OF e, of m i] by simp
  qed
  show "\<forall>n rest. fuel (JStr s) \<le> n \<longrightarrow> number_end rest \<longrightarrow>
      parse_value n (dumps (JStr s) @ rest) = Some (JStr s, rest)"
  proof (intro allI impI)
    fix n :: nat and rest
    assume "fuel (JStr s) \<le> n"
    then obtain m where "n = Suc m" by (cases n) auto
    then show "parse_value n (dumps (JStr s) @ rest) = Some (JStr s, rest)"
      using parse_value_str [of m s rest] by simp
  qed
qed

lemma reads_back: "distinct_keys v \<Longrightarrow> reads_back v"
proof (induction v)
  case (JList xs)
  then show ?case by (intro reads_back_list) (simp add: list_all_iff)
next
  case (JDict kvs)
  from JDict.prems have d: "distinct (map fst kvs)" and k: "\<forall>kv \<in> set kvs. distinct_keys (snd kv)"
    by (simp_all add: distinct_keys_JDict del: distinct_keys.simps)
  have "\<forall>kv \<in> set kvs. reads_back (snd kv)"
  proof
    fix kv assume kv: "kv \<in> set kvs"
    obtain a b where ab: "kv = (a, b)" by (cases kv)
    with kv k have "distinct_keys b" by auto
    moreover have "b \<in> Basic_BNFs.snds kv" by (simp add: ab)
    ultimately show "reads_back (snd kv)" using JDict.IH [OF kv] by (simp add: ab)
  qed
  then show ?case using d by (rule reads_back_dict)
qed (simp_all add: reads_back_atom)

lemma join_length:
  assumes "\<forall>x \<in> set xs. f x \<le> length (g x)"
  shows "sum_list (map (\<lambda>x. Suc (f x)) xs) \<le> Suc (length (join '', '' (map g xs)))"
  using assms
proof (induction xs)
  case Nil
  then show ?case by simp
next
  case (Cons x xs)
  show ?case
  proof (cases "xs = []")
    case True
    with Cons.prems show ?thesis by simp
  next
    case False
    with Cons show ?thesis by (simp add: join_Cons2)
  qed
qed

lemma fuel_le_length: "fuel v \<le> length (dumps v)"
proof (induction v)
  case (JInt i)
  from str_int_first [of i] show ?case by auto
next
  case (JList xs)
  then have "\<forall>x \<in> set xs. fuel x \<le> length (dumps x)" by simp
  from join_length [of xs fuel dumps, OF this] show ?case by (simp add: o_def)
next
  case (JDict kvs)
  have "\<forall>kv \<in> set kvs. fuel (snd kv) \<le> length (dumps_pair kv)"
  proof
    fix kv assume kv: "kv \<in> set kvs"
    obtain a b where ab: "kv = (a, b)" by (cases kv)
    have "b \<in> Basic_BNFs.snds kv" by (simp add: ab)
    from JDict.IH [OF kv this] show "fuel (snd kv) \<le> length (dumps_pair kv)"
      by (simp add: ab dumps_pair_Pair)
  qed
  from join_length [of kvs "\<lambda>kv. fuel (snd kv)" dumps_pair, OF this] show ?case
    by (simp add: fuel_JDict dumps_JDict del: fuel.simps dumps.simps)
qed (simp_all add: dumps_str_def)

lemma loads_dumps: "distinct_keys v \<Longrightarrow> loads (dumps v) = Some v"
proof -
  assume "distinct_keys v"
  then have "reads_back v" by (rule reads_back)
  moreover have "fuel v \<le> Suc (length (dumps v))" using fuel_le_length [of v] by simp
  ultimately have "parse_value (Suc (length (dumps v))) (dumps v @ []) = Some (v, [])"
    unfolding reads_back_def by (metis number_end_simps(1))
  then show ?thesis
    using skip_ws_dumps [of v "[]"] by (simp add: loads_def)
qed

lemma flag_of_json_flag_json: "flag_of_json (flag_json f) = Some f"
  by (simp add: flag_json_def flag_of_json_def as_str_def)

lemma those_flags: "those (map (flag_of_json \<circ> flag_json) fs) = Some fs"
  by (induction fs) (simp_all add: flag_of_json_flag_json)

lemma file_result_of_json_inverse: "file_result_of_json (file_result_json r) = Some r"
  by (cases r)
    (simp_all add: file_result_of_json_def as_str_def as_int_def as_bool_def as_list_def those_flags)

lemma those_file_results: "those (map (file_result_of_json \<circ> file_result_json) rs) = Some rs"
  by (induction rs) (simp_all add: file_result_of_json_inverse)

lemma distinct_keys_flag_json: "distinct_keys (flag_json f)"
  by (simp add: flag_json_def)

lemma distinct_keys_file_result_json: "distinct_keys (file_result_json r)"
  by (cases r) (simp_all add: list_all_iff distinct_keys_flag_json)

lemma distinct_keys_report: "distinct_keys (JList (map file_result_json rs))"
  by (simp add: list_all_iff distinct_keys_file_result_json)

lemma report_loads_json_dumps: "report_loads (json_dumps rs) = Some rs"
  using loads_dumps [OF distinct_keys_report, of rs]
  by (simp add: report_loads_def json_dumps_def those_file_results del: dumps.simps)

text \<open>No line break in the serialisation.\<close>

lemma hex_digit_no_newline: "k < 16 \<Longrightarrow> hex_digit k \<noteq> CHR 0x0A"
proof
  assume "k < 16" and "hex_digit k = CHR 0x0A"
  with hex_value_hex_digit [of k] have "hex_value (CHR 0x0A) = Some k" by simp
  then show False by (simp add: hex_value_def)
qed

lemma escape_char_no_newline: "CHR 0x0A \<notin> set (escape_char c)"
proof -
  have d: "(of_char c :: nat) div 16 < 16"
    using of_char_lt_256 [of c] by (intro less_mult_imp_div_less) simp
  have m: "(of_char c :: nat) mod 16 < 16" by simp
  have p: "32 \<le> (of_char c :: nat) \<Longrightarrow> c \<noteq> CHR 0x0A" by auto
  show ?thesis
    using hex_digit_no_newline [OF d] hex_digit_no_newline [OF m] p
    by (auto simp add: escape_char_def)
qed

lemma dumps_str_no_newline: "CHR 0x0A \<notin> set (dumps_str s)"
  using escape_char_no_newline by (auto simp add: dumps_str_def)

lemma str_int_no_newline: "CHR 0x0A \<notin> set (str_int i)"
proof -
  have "c \<in> set (str_nat n) \<Longrightarrow> c \<noteq> CHR 0x0A" for c n
    using str_nat_digits [of c n] by (auto simp add: is_digit_def)
  then show ?thesis by (auto simp add: str_int_def)
qed

lemma join_no_newline:
  "\<forall>x \<in> set xs. CHR 0x0A \<notin> set x \<Longrightarrow> CHR 0x0A \<notin> set (join '', '' xs)"
proof (induction xs)
  case Nil
  then show ?case by simp
next
  case (Cons x xs)
  then show ?case by (cases "xs = []") (simp_all add: join_Cons2)
qed

lemma dumps_no_newline: "CHR 0x0A \<notin> set (dumps v)"
proof (induction v)
  case (JList xs)
  then have "\<forall>x \<in> set (map dumps xs). CHR 0x0A \<notin> set x" by auto
  from join_no_newline [OF this] show ?case by simp
next
  case (JDict kvs)
  have "\<forall>x \<in> set (map dumps_pair kvs). CHR 0x0A \<notin> set x"
  proof
    fix x assume "x \<in> set (map dumps_pair kvs)"
    then obtain kv where kv: "kv \<in> set kvs" and x: "x = dumps_pair kv" by auto
    obtain a b where ab: "kv = (a, b)" by (cases kv)
    have "b \<in> Basic_BNFs.snds kv" by (simp add: ab)
    from JDict.IH [OF kv this] dumps_str_no_newline [of a] show "CHR 0x0A \<notin> set x"
      by (simp add: x ab dumps_pair_Pair)
  qed
  from join_no_newline [OF this] show ?case
    by (simp add: dumps_JDict del: dumps.simps)
qed (simp_all add: dumps_str_no_newline str_int_no_newline)

lemma json_dumps_no_newline: "CHR 0x0A \<notin> set (json_dumps rs)"
  unfolding json_dumps_def by (rule dumps_no_newline)

subsection \<open>Sample values\<close>

lemma strip_samples:
  "strip ''a.md'' = ''a.md''" "strip ''b.md'' = ''b.md''" "strip [CHR 0x20, CHR 0x0A] = []"
  by (simp_all add: strip_def isspace_def)

subsection \<open>The loop\<close>

text \<open>
  Claim C1 (per-file failure isolation).  Let none of the matched files read as empty.
  Then the loop appends to \<^verbatim>\<open>results\<close> exactly one dictionary per file, in the order of the
  files: the \<^verbatim>\<open>Failed\<close> dictionary with \<^verbatim>\<open>str(e)\<close> when reading the file or the analyser
  raised \<open>e\<close>, the \<^verbatim>\<open>Scanned\<close> dictionary otherwise.  Every file is opened, in order,
  whatever happened to the files before it.
\<close>

theorem failure_isolation:
  assumes "\<forall>fp \<in> set files. \<not> blank w fp"
  shows "results (scan_files w cfg st files) = results st @ map (file_entry w cfg) files
       \<and> length (results (scan_files w cfg st files)) = length (results st) + length files
       \<and> opened (trace (scan_files w cfg st files)) = opened (trace st) @ files
       \<and> (\<forall>fp e. read_text w fp = Inl e \<longrightarrow> file_entry w cfg fp = Failed fp (exn_str e))
       \<and> (\<forall>fp text e. read_text w fp = Inr text \<and> scan_local w text (domain cfg) = Inl e \<longrightarrow>
              file_entry w cfg fp = Failed fp (exn_str e))
       \<and> (\<forall>fp text r. read_text w fp = Inr text \<and> scan_local w text (domain cfg) = Inr r \<longrightarrow>
              file_entry w cfg fp = scanned_result fp r)"
proof -
  from assms have "filter (\<lambda>fp. \<not> blank w fp) files = files"
    by (simp add: filter_id_conv)
  then show ?thesis
    by (simp add: results_scan_files opened_scan_files file_entry_def)
qed

text \<open>Three files, the analyser raising on the second: two \<^verbatim>\<open>Scanned\<close> and one \<^verbatim>\<open>Failed\<close>.\<close>

theorem failure_isolation_witness:
  "\<not> blank world3 ''a.md'' \<and> \<not> blank world3 ''b.md''
   \<and> results (scan_files world3 config70 (initial_state config70 [''a.md'', ''b.md'', ''a.md''])
        [''a.md'', ''b.md'', ''a.md''])
     = [Scanned ''a.md'' 95 True 0 [], Failed ''b.md'' ''boom'', Scanned ''a.md'' 95 True 0 []]"
proof -
  have h: "\<forall>fp \<in> set [''a.md'', ''b.md'', ''a.md'']. \<not> blank world3 fp"
    by (simp add: blank_def world3_def strip_samples)
  from failure_isolation [OF h, of config70 "initial_state config70 [''a.md'', ''b.md'', ''a.md'']"]
  have "results (scan_files world3 config70 (initial_state config70 [''a.md'', ''b.md'', ''a.md''])
          [''a.md'', ''b.md'', ''a.md'']) =
        results (initial_state config70 [''a.md'', ''b.md'', ''a.md'']) @
        map (file_entry world3 config70) [''a.md'', ''b.md'', ''a.md'']"
    by blast
  with h show ?thesis
    by (simp add: file_entry_def world3_def config70_def initial_state_def scanned_result_def get_def)
qed

text \<open>
  Claim C3 (flagged characterisation).  A file that was read and analysed without an
  exception is appended to \<^verbatim>\<open>flagged\<close> if and only if \<^verbatim>\<open>bias_detected\<close> is true or its
  score is strictly below the threshold; so after the loop \<^verbatim>\<open>flagged\<close> holds exactly the
  scanned dictionaries of \<^verbatim>\<open>results\<close> that pass this test, in order.
\<close>

theorem flagged_iff:
  assumes "read_text w fp = Inr text" and "strip text \<noteq> []"
    and "scan_local w text (domain cfg) = Inr result"
  shows "flagged (scan_file w cfg st fp) =
           (if get (bias_detected_opt result) False \<or> get (truth_score_opt result) 100 < threshold cfg
            then flagged st @ [scanned_result fp result] else flagged st)
       \<and> results (scan_file w cfg st fp) = results st @ [scanned_result fp result]
       \<and> flagged (scan_files w cfg (initial_state cfg files) files) =
           filter (\<lambda>r. \<not> skipped r \<and> (bias_detected r \<or> truth_score r < threshold cfg))
             (results (scan_files w cfg (initial_state cfg files) files))"
proof -
  have "is_flagged cfg = (\<lambda>r. \<not> skipped r \<and> (bias_detected r \<or> truth_score r < threshold cfg))"
    by (rule ext) (simp add: is_flagged_def split: file_result.splits)
  then have "flagged (scan_files w cfg (initial_state cfg files) files) =
           filter (\<lambda>r. \<not> skipped r \<and> (bias_detected r \<or> truth_score r < threshold cfg))
             (results (scan_files w cfg (initial_state cfg files) files))"
    by (simp add: flagged_scan_files results_scan_files initial_state_def)
  with assms show ?thesis
    by (simp add: scan_file_def Let_def)
qed

text \<open>Bias detected, score 95, threshold 70: the file is flagged.\<close>

theorem flagged_iff_witness:
  "read_text world3 ''a.md'' = Inr ''a.md'' \<and> strip ''a.md'' \<noteq> []
   \<and> scan_local world3 ''a.md'' (domain config70) =
       Inr \<lparr>truth_score_opt = Some 95, flags_opt = None, bias_detected_opt = Some True\<rparr>
   \<and> flagged (scan_file world3 config70 (initial_state config70 [''a.md'']) ''a.md'') =
       [Scanned ''a.md'' 95 True 0 []]"
proof -
  have 1: "read_text world3 ''a.md'' = Inr ''a.md''" by (simp add: world3_def)
  have 2: "strip ''a.md'' \<noteq> []" by (simp add: strip_samples)
  have 3: "scan_local world3 ''a.md'' (domain config70) =
      Inr \<lparr>truth_score_opt = Some 95, flags_opt = None, bias_detected_opt = Some True\<rparr>"
    by (simp add: world3_def)
  from flagged_iff [OF 1 2 3, of "initial_state config70 [''a.md'']" "[]"] 1 2 3 show ?thesis
    by (simp add: get_def scanned_result_def initial_state_def)
qed

text \<open>
  Claim C5 (empty files).  A file whose text is empty after \<^verbatim>\<open>strip\<close> changes nothing but
  the trace, which gains the opening of the file and the skip notice: the analyser is
  not awaited, no dictionary is appended to \<^verbatim>\<open>results\<close> or \<^verbatim>\<open>flagged\<close>, and the sum of the
  scores stays.  So the lists and the sum a run ends with are those of the run without
  that file, and with them the number of scanned files and the average.
\<close>

theorem empty_file_skipped:
  assumes "read_text w fp = Inr text" and "strip text = []"
  shows "scan_file w cfg st fp = st\<lparr>trace := trace st @ [Open_read fp, Print (Skipped_empty fp)]\<rparr>
       \<and> results (scan_files w cfg st (pre @ fp # post)) = results (scan_files w cfg st (pre @ post))
       \<and> flagged (scan_files w cfg st (pre @ fp # post)) = flagged (scan_files w cfg st (pre @ post))
       \<and> total_score (scan_files w cfg st (pre @ fp # post)) =
           total_score (scan_files w cfg st (pre @ post))"
proof -
  from assms have "blank w fp" by (simp add: blank_def)
  then show ?thesis using assms
    by (simp add: scan_file_def emit_def results_scan_files flagged_scan_files
        total_score_scan_files)
qed

theorem empty_file_skipped_witness:
  "read_text world3 ''c.md'' = Inr [CHR 0x20, CHR 0x0A] \<and> strip [CHR 0x20, CHR 0x0A] = []
   \<and> scan_file world3 config70 \<lparr>results = [], flagged = [], total_score = 0, trace = []\<rparr> ''c.md''
     = \<lparr>results = [], flagged = [], total_score = 0,
        trace = [Open_read ''c.md'', Print (Skipped_empty ''c.md'')]\<rparr>"
proof -
  have 1: "read_text world3 ''c.md'' = Inr [CHR 0x20, CHR 0x0A]" by (simp add: world3_def)
  have 2: "strip [CHR 0x20, CHR 0x0A] = []" by (simp add: strip_samples)
  from empty_file_skipped [OF 1 2, of config70
      "\<lparr>results = [], flagged = [], total_score = 0, trace = []\<rparr>"] 1 2
  show ?thesis by simp
qed

subsection \<open>The run without a match\<close>

text \<open>
  Claim C6 (no match).  When the pattern matches no file, the run prints the notice,
  sets the four outputs to 0, 0, 100 and the empty list, does nothing else and returns,
  so the process ends with status 0.
\<close>

theorem no_match:
  assumes "glob_files w (paths_pattern cfg) = []"
  shows "main w e cfg =
           ([Print (No_files_matched (paths_pattern cfg)),
             set_output w e ''total_files'' ''0'',
             set_output w e ''flagged_files'' ''0'',
             set_output w e ''avg_score'' ''100'',
             set_output w e ''report'' ''[]''], Returned)
       \<and> exit_status (snd (main w e cfg)) = 0"
  using assms by (simp add: main_def)

theorem no_match_witness:
  "glob_files world0 (paths_pattern config70) = []
   \<and> main world0 env_files config70 =
       ([Print (No_files_matched ''**/*.md''),
         Append_output ''/tmp/out'' ''total_files=0\<newline>'',
         Append_output ''/tmp/out'' ''flagged_files=0\<newline>'',
         Append_output ''/tmp/out'' ''avg_score=100\<newline>'',
         Append_output ''/tmp/out'' ''report=[]\<newline>''], Returned)
   \<and> exit_status (snd (main world0 env_files config70)) = 0"
proof -
  have h: "glob_files world0 (paths_pattern config70) = []"
    by (simp add: world0_def)
  from no_match [OF h, of env_files] h show ?thesis
    by (simp add: set_output_def truthy_def env_files_def config70_def)
qed

subsection \<open>The glyph of the progress notice\<close>

text \<open>
  Claim C7, as stated, fails: with bias detected, score 95 and threshold 70 the progress
  notice carries the red glyph of the flagged tier, where the score alone gives the
  clean tier.
\<close>

theorem tier_counterexample:
  "last (trace (scan_file world3 config70 (initial_state config70 [''a.md'']) ''a.md''))
     = Print (Progress Red ''a.md'' 95 0)
   \<and> spec_tier (threshold config70) 95 = Green
   \<and> last (trace (scan_file world3 config70 (initial_state config70 [''a.md'']) ''a.md''))
     \<noteq> Print (Progress (spec_tier (threshold config70) 95) ''a.md'' 95 0)"
  by (simp add: scan_file_def world3_def config70_def strip_samples Let_def get_def spec_tier_def)

text \<open>
  Claim C7, amended.  The progress notice of a scanned file carries the flagged tier
  whenever bias was detected; without detected bias the tier is the one the score
  gives: flagged below the threshold, else warn below 90, else clean.
\<close>

theorem tier_of_notice:
  assumes "read_text w fp = Inr text" and "strip text \<noteq> []"
    and "scan_local w text (domain cfg) = Inr result"
  shows "last (trace (scan_file w cfg st fp)) =
           Print (Progress
             (if get (bias_detected_opt result) False then Red
              else spec_tier (threshold cfg) (get (truth_score_opt result) 100))
             fp (get (truth_score_opt result) 100) (length (get (flags_opt result) [])))"
  using assms by (simp add: scan_file_def Let_def spec_tier_def)

theorem tier_of_notice_witness:
  "read_text world3 ''d.md'' = Inr ''d.md'' \<and> strip ''d.md'' \<noteq> []
   \<and> scan_local world3 ''d.md'' (domain config70) =
       Inr \<lparr>truth_score_opt = Some 50,
               flags_opt = Some [\<lparr>name_opt = Some ''weasel'', severity_opt = Some ''high''\<rparr>],
               bias_detected_opt = None\<rparr>
   \<and> last (trace (scan_file world3 config70 (initial_state config70 [''d.md'']) ''d.md''))
     = Print (Progress Red ''d.md'' 50 1)"
proof -
  have 1: "read_text world3 ''d.md'' = Inr ''d.md''" by (simp add: world3_def)
  have 2: "strip ''d.md'' \<noteq> []" by (simp add: strip_def isspace_def)
  have 3: "scan_local world3 ''d.md'' (domain config70) =
       Inr \<lparr>truth_score_opt = Some 50,
               flags_opt = Some [\<lparr>name_opt = Some ''weasel'', severity_opt = Some ''high''\<rparr>],
               bias_detected_opt = None\<rparr>" by (simp add: world3_def)
  from tier_of_notice [OF 1 2 3, of "initial_state config70 [''d.md'']"] 1 2 3 show ?thesis
    by (simp add: get_def spec_tier_def config70_def)
qed

subsection \<open>After the loop\<close>

lemma flagged_run_not_skipped:
  "f \<in> set (flagged (scan_files w cfg (initial_state cfg fs) files)) \<Longrightarrow>
     \<not> skipped f \<and> f \<in> set (results (scan_files w cfg (initial_state cfg fs) files))"
  by (auto simp add: flagged_scan_files results_scan_files initial_state_def is_flagged_def
      split: file_result.splits)

lemma flagged_rows_scanned:
  "\<forall>f \<in> set fs. \<not> skipped f \<Longrightarrow> \<exists>rows. flagged_rows fs = Inr rows \<and> length rows = length fs"
proof (induction fs)
  case Nil
  then show ?case by simp
next
  case (Cons f fs)
  then obtain rows where "flagged_rows fs = Inr rows" "length rows = length fs" by auto
  moreover from Cons.prems obtain a b c d e' where "f = Scanned a b c d e'"
    by (cases f) auto
  ultimately show ?case by (simp add: flagged_row_def)
qed

lemma build_summary_scanned:
  "\<forall>f \<in> set flgd. \<not> skipped f \<Longrightarrow> \<exists>summary. build_summary scanned flgd a thr dmn = Inr summary"
  using flagged_rows_scanned [of flgd] by (auto simp add: build_summary_def Let_def)

lemma get_truth_score_scanned: "\<not> skipped f \<Longrightarrow> get_truth_score f d = truth_score f"
  by (cases f) simp_all

lemma snd_decide:
  "snd (decide cfg flgd) =
     (if fail_on_bias cfg \<and> (\<exists>f \<in> set flgd. get_truth_score f 100 < threshold cfg)
      then Exited 1 else Returned)"
  by (auto simp add: decide_def Let_def filter_empty_conv)

lemma fst_decide:
  "fst (decide cfg flgd) =
     (if fail_on_bias cfg \<and> (\<exists>f \<in> set flgd. get_truth_score f 100 < threshold cfg)
      then [Print (Below_threshold (length (filter (\<lambda>f. get_truth_score f 100 < threshold cfg) flgd))
                     (threshold cfg)), Sys_exit 1]
      else [Print All_passed])"
  by (auto simp add: decide_def Let_def filter_empty_conv)

lemma main_matched:
  "glob_files w (paths_pattern cfg) \<noteq> [] \<Longrightarrow> main w e cfg = report w e cfg (final_state w cfg)"
  by (simp add: main_def final_state_def Let_def)

lemma flagged_final_not_skipped:
  "f \<in> set (flagged (final_state w cfg)) \<Longrightarrow> \<not> skipped f \<and> f \<in> set (results (final_state w cfg))"
  unfolding final_state_def Let_def by (rule flagged_run_not_skipped)

lemma report_cases:
  assumes "\<forall>f \<in> set (flagged st). \<not> skipped f"
  shows "(\<exists>ex. average (total_score st) (filter (\<lambda>r. \<not> skipped r) (results st)) = Inl ex
            \<and> report w e cfg st = (trace st, Uncaught ex))
       \<or> (\<exists>avg summary.
            average (total_score st) (filter (\<lambda>r. \<not> skipped r) (results st)) = Inr avg
          \<and> build_summary (filter (\<lambda>r. \<not> skipped r) (results st)) (flagged st) avg
               (threshold cfg) (domain cfg) = Inr summary
          \<and> report w e cfg st =
              (trace st @
                 [Print Blank, Print Rule,
                  Print (Results (length (filter (\<lambda>r. \<not> skipped r) (results st)))
                           (length (flagged st)) avg),
                  Print Rule,
                  set_output w e ''total_files''
                    (str_int (int (length (filter (\<lambda>r. \<not> skipped r) (results st))))),
                  set_output w e ''flagged_files'' (str_int (int (length (flagged st)))),
                  set_output w e ''avg_score'' (str_number (float_repr w) avg),
                  set_output w e ''report'' (json_dumps (results st)),
                  write_summary e summary] @ fst (decide cfg (flagged st)),
               snd (decide cfg (flagged st))))"
proof (cases "average (total_score st) (filter (\<lambda>r. \<not> skipped r) (results st))")
  case (Inl ex)
  then show ?thesis by (simp add: report_def Let_def)
next
  case (Inr avg)
  from build_summary_scanned [OF assms] obtain summary where
    "build_summary (filter (\<lambda>r. \<not> skipped r) (results st)) (flagged st) avg
               (threshold cfg) (domain cfg) = Inr summary" by blast
  with Inr show ?thesis by (simp add: report_def Let_def split: prod.splits)
qed

lemma snd_report:
  assumes "\<forall>f \<in> set (flagged st). \<not> skipped f"
    and "average (total_score st) (filter (\<lambda>r. \<not> skipped r) (results st)) = Inr avg"
  shows "snd (report w e cfg st) = snd (decide cfg (flagged st))"
  using report_cases [OF assms(1), of w e cfg] assms(2) by auto

lemma no_exit_scan_files:
  "Sys_exit k \<notin> set (trace st) \<Longrightarrow> Sys_exit k \<notin> set (trace (scan_files w cfg st files))"
proof (induction files arbitrary: st)
  case Nil
  then show ?case by simp
next
  case (Cons fp fps)
  have "Sys_exit k \<notin> set (trace (scan_file w cfg st fp))"
    using Cons.prems by (simp add: scan_file_def Let_def split: sum.splits)
  then show ?case using Cons.IH by simp
qed

lemma no_exit_final: "Sys_exit k \<notin> set (trace (final_state w cfg))"
  unfolding final_state_def Let_def
  by (rule no_exit_scan_files) (simp add: initial_state_def)

lemma final_state_after: "final_state w cfg =
   state_after w cfg (glob_files w (paths_pattern cfg)) (length (glob_files w (paths_pattern cfg)))"
  by (simp add: final_state_def state_after_def Let_def)

lemma flagged_rows_map:
  "\<forall>f \<in> set fs. \<not> skipped f \<Longrightarrow>
     flagged_rows fs =
       Inr (map (\<lambda>f. Md_flagged_row (file_path f) (truth_score f)
                        (join '', '' (map name (take 3 (flags f))))) fs)"
proof (induction fs)
  case Nil
  then show ?case by simp
next
  case (Cons f fs)
  from Cons.prems obtain a b c d e' where "f = Scanned a b c d e'"
    by (cases f) auto
  with Cons show ?case by (simp add: flagged_row_def)
qed

lemma build_summary_flagged:
  assumes "\<forall>f \<in> set flgd. \<not> skipped f" and "flgd \<noteq> []"
  shows "build_summary scanned flgd avg thr dmn =
           Inr ([Md_title, Md_blank, Md_metric_head, Md_metric_rule,
                 Md_files_scanned (length scanned), Md_files_flagged (length flgd),
                 Md_average avg, Md_threshold thr, Md_domain dmn, Md_blank,
                 Md_flagged_title, Md_blank, Md_flagged_head, Md_flagged_rule]
                @ map (\<lambda>f. Md_flagged_row (file_path f) (truth_score f)
                                (join '', '' (map name (take 3 (flags f))))) flgd
                @ [Md_blank, Md_rule, Md_footer])"
  using assms by (simp add: build_summary_def Let_def flagged_rows_map)

lemma below_filter:
  "\<forall>f \<in> set flgd. \<not> skipped f \<Longrightarrow>
     filter (\<lambda>f. get_truth_score f 100 < thr) flgd = filter (\<lambda>f. truth_score f < thr) flgd"
  by (rule filter_cong) (simp_all add: get_truth_score_scanned)

subsection \<open>The sample run\<close>

lemma float_samples:
  "truediv 145 2 = Inr (145 / 2)" "round1 (145 / 2) = 145 / 2"
  by code_simp+

lemma final_state_world3:
  "final_state world3 config70 =
     \<lparr>results = [Scanned ''a.md'' 95 True 0 [], Failed ''b.md'' ''boom'',
                 Scanned ''d.md'' 50 False 1 [\<lparr>name = ''weasel'', severity = ''high''\<rparr>]],
      flagged = [Scanned ''a.md'' 95 True 0 [],
                 Scanned ''d.md'' 50 False 1 [\<lparr>name = ''weasel'', severity = ''high''\<rparr>]],
      total_score = 145,
      trace = [Print (Scanning 4 ''general''), Print (Settings 70 True),
               Print (Pattern ''**/*.md''), Print Blank,
               Open_read ''a.md'', Await_scan_local ''a.md'' ''general'',
               Print (Warning_annotation ''a.md'' 95 0 ''''), Print (Progress Red ''a.md'' 95 0),
               Open_read ''b.md'', Await_scan_local ''b.md'' ''general'',
               Print (Scan_failed ''b.md'' ''boom''),
               Open_read ''c.md'', Print (Skipped_empty ''c.md''),
               Open_read ''d.md'', Await_scan_local ''d.md'' ''general'',
               Print (Warning_annotation ''d.md'' 50 1 ''weasel''),
               Print (Progress Red ''d.md'' 50 1)]\<rparr>"
  by (simp add: final_state_def world3_def config70_def initial_state_def scan_file_def
      record_result_def except_handler_def emit_def strip_def isspace_def get_def Let_def)

lemma average_world3:
  "average (total_score (final_state world3 config70))
     (filter (\<lambda>r. \<not> skipped r) (results (final_state world3 config70))) =
   Inr (Float_val (145 / 2))"
  by (simp add: final_state_world3 average_def float_samples)

lemma glob_world3: "glob_files world3 p \<noteq> []"
  by (simp add: world3_def)

lemma snd_main_world3: "snd (main world3 e config70) = Exited 1"
proof -
  have "snd (main world3 e config70) = snd (decide config70 (flagged (final_state world3 config70)))"
    using snd_report [OF _ average_world3] flagged_final_not_skipped
    by (simp add: main_matched glob_world3)
  also have "\<dots> = Exited 1"
    by (simp add: snd_decide final_state_world3) (simp add: config70_def)
  finally show ?thesis .
qed

lemma text_samples:
  "str_int 2 = ''2''" "sample_repr (145 / 2) = ''72.5''"
  by code_simp+

subsection \<open>The exit status\<close>

text \<open>
  Claim C2 (exit status).  A run that does not die of an uncaught exception ends with
  status 1 if and only if \<^verbatim>\<open>fail_on_bias\<close> is set and some dictionary in \<^verbatim>\<open>flagged\<close> has a
  score strictly below the threshold, and with status 0 otherwise; a file flagged for
  detected bias alone, with a score at or above the threshold, does not make it fail.
\<close>

theorem exit_status_iff:
  assumes "\<forall>ex. snd (main w e cfg) \<noteq> Uncaught ex"
  shows "exit_status (snd (main w e cfg)) =
           (if fail_on_bias cfg
              \<and> (\<exists>f \<in> set (flagged (final_state w cfg)). truth_score f < threshold cfg)
            then 1 else 0)
       \<and> ((\<forall>f \<in> set (flagged (final_state w cfg)). threshold cfg \<le> truth_score f) \<longrightarrow>
            exit_status (snd (main w e cfg)) = 0)"
proof -
  have ns: "\<forall>f \<in> set (flagged (final_state w cfg)). \<not> skipped f"
    using flagged_final_not_skipped by blast
  have g: "(\<exists>f \<in> set (flagged (final_state w cfg)). get_truth_score f 100 < threshold cfg)
      \<longleftrightarrow> (\<exists>f \<in> set (flagged (final_state w cfg)). truth_score f < threshold cfg)"
    using ns by (auto simp add: get_truth_score_scanned)
  have "snd (main w e cfg) = snd (decide cfg (flagged (final_state w cfg)))"
  proof (cases "glob_files w (paths_pattern cfg) = []")
    case True
    then show ?thesis
      by (simp add: main_def final_state_def initial_state_def snd_decide)
  next
    case False
    from report_cases [OF ns, of w e cfg] assms False show ?thesis
      by (auto simp add: main_matched)
  qed
  then have eq: "exit_status (snd (main w e cfg)) =
           (if fail_on_bias cfg
              \<and> (\<exists>f \<in> set (flagged (final_state w cfg)). truth_score f < threshold cfg)
            then 1 else 0)"
    using g by (simp add: snd_decide)
  moreover have "exit_status (snd (main w e cfg)) = 0"
    if "\<forall>f \<in> set (flagged (final_state w cfg)). threshold cfg \<le> truth_score f"
  proof -
    from that have "\<not> (\<exists>f \<in> set (flagged (final_state w cfg)). truth_score f < threshold cfg)"
      by (meson not_less)
    with eq show ?thesis by simp
  qed
  ultimately show ?thesis by blast
qed

text \<open>The sample run: \<^verbatim>\<open>d.md\<close> scored 50 under the threshold 70, so the status is 1.\<close>

theorem exit_status_iff_witness:
  "snd (main world3 env_files config70) = Exited 1
   \<and> fail_on_bias config70
   \<and> exit_status (snd (main world3 env_files config70)) = 1"
proof -
  have h: "\<forall>ex. snd (main world3 env_files config70) \<noteq> Uncaught ex"
    by (simp add: snd_main_world3)
  have f: "fail_on_bias config70" by (simp add: config70_def)
  from exit_status_iff [OF h] show ?thesis
    by (simp add: snd_main_world3 f)
qed

text \<open>
  Claim C9 (reporting precedes the exit).  A run that ends through \<^verbatim>\<open>sys.exit(1)\<close> has by
  then set the four outputs and written the whole summary.  Its trace is the trace of
  the loop followed by the result lines; the four outputs, each with its name and its
  full value appended to the output file (or shown on standard output when no file is
  configured); the summary with the metrics table, one row per flagged file and the
  footer, appended to the summary file (or printed); the failure notice; and, last, the
  exit.  The values of \<^verbatim>\<open>total_files\<close>, \<^verbatim>\<open>flagged_files\<close> and \<^verbatim>\<open>report\<close> hold no line break, so
  each is written on one line as \<^verbatim>\<open>name=value\<close>.
\<close>

theorem report_before_exit:
  assumes "snd (main w e cfg) = Exited 1"
  shows
    "let st = final_state w cfg;
         scanned = filter (\<lambda>r. \<not> skipped r) (results st);
         out = (\<lambda>nm val.
           if truthy (GITHUB_OUTPUT e) then
             if CHR 0x0A \<in> set val then
               Append_output (the (GITHUB_OUTPUT e))
                 (nm @ ''<<'' @ uuid4_hex w @ [CHR 0x0A] @ val @ [CHR 0x0A] @ uuid4_hex w @ [CHR 0x0A])
             else Append_output (the (GITHUB_OUTPUT e)) (nm @ ''='' @ val @ [CHR 0x0A])
           else Print (Output_fallback
                  (''[output] '' @ nm @ ''='' @ take 100 val @
                   (if 100 < length val then ''...'' else []))));
         summary = (\<lambda>avg.
           [Md_title, Md_blank, Md_metric_head, Md_metric_rule,
            Md_files_scanned (length scanned), Md_files_flagged (length (flagged st)),
            Md_average avg, Md_threshold (threshold cfg), Md_domain (domain cfg), Md_blank,
            Md_flagged_title, Md_blank, Md_flagged_head, Md_flagged_rule]
           @ map (\<lambda>f. Md_flagged_row (file_path f) (truth_score f)
                           (join '', '' (map name (take 3 (flags f))))) (flagged st)
           @ [Md_blank, Md_rule, Md_footer])
     in \<exists>avg.
          average (total_score st) scanned = Inr avg
        \<and> fst (main w e cfg) =
            trace st @
            [Print Blank, Print Rule,
             Print (Results (length scanned) (length (flagged st)) avg),
             Print Rule,
             out ''total_files'' (str_int (int (length scanned))),
             out ''flagged_files'' (str_int (int (length (flagged st)))),
             out ''avg_score'' (str_number (float_repr w) avg),
             out ''report'' (json_dumps (results st)),
             (if truthy (GITHUB_STEP_SUMMARY e)
              then Append_summary (the (GITHUB_STEP_SUMMARY e)) (summary avg)
              else Print (Summary_fallback (summary avg))),
             Print (Below_threshold
                      (length (filter (\<lambda>f. truth_score f < threshold cfg) (flagged st)))
                      (threshold cfg)),
             Sys_exit 1]
        \<and> CHR 0x0A \<notin> set (str_int (int (length scanned)))
        \<and> CHR 0x0A \<notin> set (str_int (int (length (flagged st))))
        \<and> CHR 0x0A \<notin> set (json_dumps (results st))
        \<and> Sys_exit 1 \<notin> set (trace st)"
proof -
  define st where "st = final_state w cfg"
  define scanned where "scanned = filter (\<lambda>r. \<not> skipped r) (results st)"
  from assms have ne: "glob_files w (paths_pattern cfg) \<noteq> []"
    by (auto simp add: main_def)
  have ns: "\<forall>f \<in> set (flagged st). \<not> skipped f"
    unfolding st_def using flagged_final_not_skipped by blast
  from report_cases [OF ns, of w e cfg] assms ne
  obtain avg summary where
    a: "average (total_score st) scanned = Inr avg"
    and b: "build_summary scanned (flagged st) avg (threshold cfg) (domain cfg) = Inr summary"
    and r: "main w e cfg =
              (trace st @
                 [Print Blank, Print Rule,
                  Print (Results (length scanned) (length (flagged st)) avg),
                  Print Rule,
                  set_output w e ''total_files'' (str_int (int (length scanned))),
                  set_output w e ''flagged_files'' (str_int (int (length (flagged st)))),
                  set_output w e ''avg_score'' (str_number (float_repr w) avg),
                  set_output w e ''report'' (json_dumps (results st)),
                  write_summary e summary] @ fst (decide cfg (flagged st)),
               snd (decide cfg (flagged st)))"
    unfolding st_def scanned_def by (auto simp add: main_matched)
  from r assms have d: "snd (decide cfg (flagged st)) = Exited 1" by simp
  then have fl: "flagged st \<noteq> []"
    by (auto simp add: snd_decide split: if_splits)
  from d have fd: "fst (decide cfg (flagged st)) =
      [Print (Below_threshold (length (filter (\<lambda>f. truth_score f < threshold cfg) (flagged st)))
                (threshold cfg)), Sys_exit 1]"
    by (simp add: snd_decide fst_decide below_filter [OF ns] split: if_splits)
  from b build_summary_flagged [OF ns fl, of scanned avg "threshold cfg" "domain cfg"]
  have s: "summary =
      [Md_title, Md_blank, Md_metric_head, Md_metric_rule,
       Md_files_scanned (length scanned), Md_files_flagged (length (flagged st)),
       Md_average avg, Md_threshold (threshold cfg), Md_domain (domain cfg), Md_blank,
       Md_flagged_title, Md_blank, Md_flagged_head, Md_flagged_rule]
      @ map (\<lambda>f. Md_flagged_row (file_path f) (truth_score f)
                      (join '', '' (map name (take 3 (flags f))))) (flagged st)
      @ [Md_blank, Md_rule, Md_footer]"
    by simp
  have x: "Sys_exit 1 \<notin> set (trace st)"
    unfolding st_def by (rule no_exit_final)
  have "fst (main w e cfg) =
            trace st @
            [Print Blank, Print Rule,
             Print (Results (length scanned) (length (flagged st)) avg),
             Print Rule,
             set_output w e ''total_files'' (str_int (int (length scanned))),
             set_output w e ''flagged_files'' (str_int (int (length (flagged st)))),
             set_output w e ''avg_score'' (str_number (float_repr w) avg),
             set_output w e ''report'' (json_dumps (results st)),
             write_summary e summary,
             Print (Below_threshold
                      (length (filter (\<lambda>f. truth_score f < threshold cfg) (flagged st)))
                      (threshold cfg)),
             Sys_exit 1]"
    by (simp add: r fd)
  then show ?thesis
    unfolding Let_def st_def [symmetric] scanned_def [symmetric]
    using a x s str_int_no_newline json_dumps_no_newline
    by (intro exI [of _ avg]) (simp add: set_output_def write_summary_def Let_def)
qed

text \<open>
  The sample run with both files configured: the whole trace, with the four lines
  appended to the output file and the summary appended to the summary file before the
  exit.
\<close>

theorem report_before_exit_witness:
  "snd (main world3 env_files config70) = Exited 1
   \<and> fst (main world3 env_files config70) =
       [Print (Scanning 4 ''general''), Print (Settings 70 True),
        Print (Pattern ''**/*.md''), Print Blank,
        Open_read ''a.md'', Await_scan_local ''a.md'' ''general'',
        Print (Warning_annotation ''a.md'' 95 0 ''''), Print (Progress Red ''a.md'' 95 0),
        Open_read ''b.md'', Await_scan_local ''b.md'' ''general'',
        Print (Scan_failed ''b.md'' ''boom''),
        Open_read ''c.md'', Print (Skipped_empty ''c.md''),
        Open_read ''d.md'', Await_scan_local ''d.md'' ''general'',
        Print (Warning_annotation ''d.md'' 50 1 ''weasel''),
        Print (Progress Red ''d.md'' 50 1),
        Print Blank, Print Rule, Print (Results 2 2 (Float_val (145 / 2))), Print Rule,
        Append_output ''/tmp/out'' ''total_files=2\<newline>'',
        Append_output ''/tmp/out'' ''flagged_files=2\<newline>'',
        Append_output ''/tmp/out'' ''avg_score=72.5\<newline>'',
        Append_output ''/tmp/out''
          (''report='' @
           json_dumps [Scanned ''a.md'' 95 True 0 [], Failed ''b.md'' ''boom'',
                       Scanned ''d.md'' 50 False 1 [\<lparr>name = ''weasel'', severity = ''high''\<rparr>]] @
           ''\<newline>''),
        Append_summary ''/tmp/summary''
          [Md_title, Md_blank, Md_metric_head, Md_metric_rule, Md_files_scanned 2,
           Md_files_flagged 2, Md_average (Float_val (145 / 2)), Md_threshold 70,
           Md_domain ''general'', Md_blank, Md_flagged_title, Md_blank, Md_flagged_head,
           Md_flagged_rule, Md_flagged_row ''a.md'' 95 '''',
           Md_flagged_row ''d.md'' 50 ''weasel'', Md_blank, Md_rule, Md_footer],
        Print (Below_threshold 1 70), Sys_exit 1]"
proof -
  have h: "snd (main world3 env_files config70) = Exited 1"
    by (rule snd_main_world3)
  from report_before_exit [OF h, unfolded Let_def final_state_world3]
    average_world3 [unfolded final_state_world3]
  have "fst (main world3 env_files config70) =
       [Print (Scanning 4 ''general''), Print (Settings 70 True),
        Print (Pattern ''**/*.md''), Print Blank,
        Open_read ''a.md'', Await_scan_local ''a.md'' ''general'',
        Print (Warning_annotation ''a.md'' 95 0 ''''), Print (Progress Red ''a.md'' 95 0),
        Open_read ''b.md'', Await_scan_local ''b.md'' ''general'',
        Print (Scan_failed ''b.md'' ''boom''),
        Open_read ''c.md'', Print (Skipped_empty ''c.md''),
        Open_read ''d.md'', Await_scan_local ''d.md'' ''general'',
        Print (Warning_annotation ''d.md'' 50 1 ''weasel''),
        Print (Progress Red ''d.md'' 50 1),
        Print Blank, Print Rule, Print (Results 2 2 (Float_val (145 / 2))), Print Rule,
        Append_output ''/tmp/out'' ''total_files=2\<newline>'',
        Append_output ''/tmp/out'' ''flagged_files=2\<newline>'',
        Append_output ''/tmp/out'' ''avg_score=72.5\<newline>'',
        Append_output ''/tmp/out''
          (''report='' @
           json_dumps [Scanned ''a.md'' 95 True 0 [], Failed ''b.md'' ''boom'',
                       Scanned ''d.md'' 50 False 1 [\<lparr>name = ''weasel'', severity = ''high''\<rparr>]] @
           ''\<newline>''),
        Append_summary ''/tmp/summary''
          [Md_title, Md_blank, Md_metric_head, Md_metric_rule, Md_files_scanned 2,
           Md_files_flagged 2, Md_average (Float_val (145 / 2)), Md_threshold 70,
           Md_domain ''general'', Md_blank, Md_flagged_title, Md_blank, Md_flagged_head,
           Md_flagged_rule, Md_flagged_row ''a.md'' 95 '''',
           Md_flagged_row ''d.md'' 50 ''weasel'', Md_blank, Md_rule, Md_footer],
        Print (Below_threshold 1 70), Sys_exit 1]"
    by (auto simp add: text_samples env_files_def truthy_def config70_def world3_def)
  with h show ?thesis by simp
qed

subsection \<open>The flagged list\<close>

text \<open>
  Claim C10 (the flagged list).  After any number of rounds of the loop, every
  dictionary in \<^verbatim>\<open>flagged\<close> is a \<^verbatim>\<open>Scanned\<close> one and is in \<^verbatim>\<open>results\<close>; \<^verbatim>\<open>flagged\<close> is no longer
  than the list of scanned dictionaries, so the \<^verbatim>\<open>flagged_files\<close> output is at most the
  \<^verbatim>\<open>total_files\<close> output; and the rows of the flagged table are built without a
  \<^verbatim>\<open>KeyError\<close>, one per flagged dictionary.
\<close>

theorem flagged_invariant:
  "(\<forall>f \<in> set (flagged (state_after w cfg files n)).
       \<not> skipped f \<and> f \<in> set (results (state_after w cfg files n)))
   \<and> length (flagged (state_after w cfg files n))
       \<le> length (filter (\<lambda>r. \<not> skipped r) (results (state_after w cfg files n)))
   \<and> (\<exists>rows. flagged_rows (flagged (state_after w cfg files n)) = Inr rows
          \<and> length rows = length (flagged (state_after w cfg files n)))"
proof -
  have a: "\<forall>f \<in> set (flagged (state_after w cfg files n)).
       \<not> skipped f \<and> f \<in> set (results (state_after w cfg files n))"
    unfolding state_after_def using flagged_run_not_skipped by blast
  have "flagged (state_after w cfg files n) =
      filter (is_flagged cfg) (filter (\<lambda>r. \<not> skipped r) (results (state_after w cfg files n)))"
    by (auto simp add: state_after_def flagged_scan_files results_scan_files initial_state_def
        is_flagged_def intro!: filter_cong split: file_result.splits)
  then have b: "length (flagged (state_after w cfg files n))
       \<le> length (filter (\<lambda>r. \<not> skipped r) (results (state_after w cfg files n)))"
    by (metis length_filter_le)
  from a have "\<forall>f \<in> set (flagged (state_after w cfg files n)). \<not> skipped f" by blast
  from flagged_rows_scanned [OF this] a b show ?thesis by blast
qed

theorem flagged_invariant_witness:
  "length (flagged (final_state world3 config70))
       \<le> length (filter (\<lambda>r. \<not> skipped r) (results (final_state world3 config70)))
   \<and> (\<exists>rows. flagged_rows (flagged (final_state world3 config70)) = Inr rows
          \<and> length rows = length (flagged (final_state world3 config70)))
   \<and> flagged (final_state world3 config70) =
        [Scanned ''a.md'' 95 True 0 [],
         Scanned ''d.md'' 50 False 1 [\<lparr>name = ''weasel'', severity = ''high''\<rparr>]]"
  using flagged_invariant [of world3 config70 "glob_files world3 (paths_pattern config70)"
      "length (glob_files world3 (paths_pattern config70))"]
  unfolding final_state_after [symmetric]
  by (simp add: final_state_world3)

subsection \<open>The average\<close>

lemma sum_scanned:
  "(\<Sum>r\<leftarrow>rs. get_truth_score r 0) = (\<Sum>r\<leftarrow>filter (\<lambda>r. \<not> skipped r) rs. truth_score r)"
proof (induction rs)
  case Nil
  then show ?case by simp
next
  case (Cons r rs)
  then show ?case by (cases r) simp_all
qed

lemma total_score_final:
  "total_score (final_state w cfg) =
     (\<Sum>r\<leftarrow>filter (\<lambda>r. \<not> skipped r) (results (final_state w cfg)). truth_score r)"
  by (simp add: final_state_def Let_def total_score_scan_files results_scan_files
      initial_state_def sum_scanned [symmetric] o_def)

lemma sum_bounds:
  "\<forall>r \<in> set rs. 0 \<le> truth_score r \<and> truth_score r \<le> 100 \<Longrightarrow>
     0 \<le> (\<Sum>r\<leftarrow>rs. truth_score r) \<and> (\<Sum>r\<leftarrow>rs. truth_score r) \<le> 100 * int (length rs)"
  by (induction rs) auto

lemma avg_output:
  assumes "average (total_score (final_state w cfg))
             (filter (\<lambda>r. \<not> skipped r) (results (final_state w cfg))) = Inr avg"
  shows "set_output w e ''avg_score'' (str_number (float_repr w) avg) \<in> set (fst (main w e cfg))"
proof (cases "glob_files w (paths_pattern cfg) = []")
  case True
  then have "results (final_state w cfg) = []"
    by (simp add: final_state_def initial_state_def)
  with assms have "avg = Int_val 100" by (simp add: average_def)
  moreover have "str_int 100 = ''100''"
    by code_simp
  ultimately show ?thesis using True by (simp add: main_def)
next
  case False
  have ns: "\<forall>f \<in> set (flagged (final_state w cfg)). \<not> skipped f"
    using flagged_final_not_skipped by blast
  from report_cases [OF ns, of w e cfg] assms False show ?thesis
    by (auto simp add: main_matched)
qed

lemma final_state_world2:
  "final_state world2 config70 =
     \<lparr>results = [Scanned ''x.md'' 100 False 0 [], Scanned ''y.md'' 80 False 0 []],
      flagged = [],
      total_score = 180,
      trace = [Print (Scanning 2 ''general''), Print (Settings 70 True),
               Print (Pattern ''**/*.md''), Print Blank,
               Open_read ''x.md'', Await_scan_local ''x.md'' ''general'',
               Print (Progress Green ''x.md'' 100 0),
               Open_read ''y.md'', Await_scan_local ''y.md'' ''general'',
               Print (Progress Yellow ''y.md'' 80 0)]\<rparr>"
  by (simp add: final_state_def world2_def config70_def initial_state_def scan_file_def
      record_result_def except_handler_def emit_def strip_def isspace_def get_def Let_def)

lemma float_samples2:
  "truediv 180 2 = Inr 90" "round1 90 = 90" "sample_repr 90 = ''90.0''"
  by code_simp+

lemma average_world2:
  "average (total_score (final_state world2 config70))
     (filter (\<lambda>r. \<not> skipped r) (results (final_state world2 config70))) =
   Inr (Float_val 90)"
  by (simp add: final_state_world2 average_def float_samples2)

text \<open>
  Claim C4 (average score).  Let the scores of the scanned files lie between 0 and 100
  and let there be fewer than \<open>2^40\<close> of them.  Then line 106 raises nothing, the
  \<^verbatim>\<open>avg_score\<close> output is \<^verbatim>\<open>str\<close> of its value, and that value is the integer 100 when no
  file was scanned and otherwise the float nearest to a decimal \<open>d/10\<close> with one
  fractional digit that is a nearest such decimal to the exact mean of the scores of
  the \<^verbatim>\<open>Scanned\<close> dictionaries (it differs from the mean by at most one twentieth).
\<close>

theorem average_score:
  assumes "\<forall>r \<in> set (filter (\<lambda>r. \<not> skipped r) (results (final_state w cfg))).
             0 \<le> truth_score r \<and> truth_score r \<le> 100"
    and "length (filter (\<lambda>r. \<not> skipped r) (results (final_state w cfg))) < 2 ^ 40"
  shows "\<exists>avg.
           average (total_score (final_state w cfg))
             (filter (\<lambda>r. \<not> skipped r) (results (final_state w cfg))) = Inr avg
         \<and> set_output w e ''avg_score'' (str_number (float_repr w) avg) \<in> set (fst (main w e cfg))
         \<and> (if filter (\<lambda>r. \<not> skipped r) (results (final_state w cfg)) = [] then avg = Int_val 100
            else \<exists>d. avg = Float_val (fl64 (of_int d / 10))
               \<and> \<bar>(of_int d / 10 :: rat)
                   - of_int (\<Sum>r\<leftarrow>filter (\<lambda>r. \<not> skipped r) (results (final_state w cfg)). truth_score r)
                     / of_int (int (length (filter (\<lambda>r. \<not> skipped r) (results (final_state w cfg)))))\<bar>
                 \<le> 1 / 20)"
proof -
  define scanned where "scanned = filter (\<lambda>r. \<not> skipped r) (results (final_state w cfg))"
  define t where "t = (\<Sum>r\<leftarrow>scanned. truth_score r)"
  define n where "n = int (length scanned)"
  have tot: "total_score (final_state w cfg) = t"
    by (simp add: total_score_final t_def scanned_def)
  show ?thesis
  proof (cases "scanned = []")
    case True
    then have "average (total_score (final_state w cfg)) scanned = Inr (Int_val 100)"
      by (simp add: average_def)
    with True avg_output [of w cfg "Int_val 100" e] show ?thesis
      by (simp add: scanned_def)
  next
    case False
    then have n1: "1 \<le> n" by (cases scanned) (simp_all add: n_def)
    have n2: "n < 2 ^ 40" using assms(2) by (simp add: n_def scanned_def)
    from sum_bounds [of scanned] assms(1) have t0: "0 \<le> t" and t1: "t \<le> 100 * n"
      by (simp_all add: t_def n_def scanned_def)
    from truediv_error [OF t0 t1 n1 n2] obtain x where
      x: "truediv t n = Inr x" and e: "\<bar>x - of_int t / of_int n\<bar> \<le> 100 / 9007199254740992"
      by blast
    have m: "int (max (length scanned) 1) = n" using n1 by (simp add: n_def)
    have a: "average (total_score (final_state w cfg)) scanned = Inr (Float_val (round1 x))"
      using False x m by (simp add: average_def tot)
    have "round1 x = fl64 (of_int (round_half_even (x * 10)) / 10)" by (simp add: round1_def)
    with a avg_output [of w cfg "Float_val (round1 x)" e] round1_near [OF n1 n2 e] False
    show ?thesis
      unfolding scanned_def [symmetric] t_def [symmetric] n_def [symmetric] by auto
  qed
qed

text \<open>The scores 100 and 80 give the average 90.0.\<close>

theorem average_score_witness:
  "average (total_score (final_state world2 config70))
     (filter (\<lambda>r. \<not> skipped r) (results (final_state world2 config70))) = Inr (Float_val 90)
   \<and> str_number (float_repr world2) (Float_val 90) = ''90.0''
   \<and> Append_output ''/tmp/out'' ''avg_score=90.0\<newline>'' \<in> set (fst (main world2 env_files config70))"
proof -
  have h1: "\<forall>r \<in> set (filter (\<lambda>r. \<not> skipped r) (results (final_state world2 config70))).
             0 \<le> truth_score r \<and> truth_score r \<le> 100"
    by (simp add: final_state_world2)
  have h2: "length (filter (\<lambda>r. \<not> skipped r) (results (final_state world2 config70))) < 2 ^ 40"
    by (simp add: final_state_world2)
  have r: "float_repr world2 = sample_repr" by (simp add: world2_def)
  from average_score [OF h1 h2, of env_files] obtain avg where
    a: "average (total_score (final_state world2 config70))
          (filter (\<lambda>r. \<not> skipped r) (results (final_state world2 config70))) = Inr avg"
    and o: "set_output world2 env_files ''avg_score'' (str_number (float_repr world2) avg)
          \<in> set (fst (main world2 env_files config70))"
    by blast
  from a have avg: "avg = Float_val 90" by (simp add: average_world2)
  have "set_output world2 env_files ''avg_score'' ''90.0'' =
      Append_output ''/tmp/out'' ''avg_score=90.0\<newline>''"
    by (simp add: set_output_def env_files_def truthy_def)
  with o avg show ?thesis
    by (simp add: average_world2 r float_samples2)
qed

subsection \<open>The report output\<close>

lemma report_output:
  assumes "\<forall>ex. snd (main w e cfg) \<noteq> Uncaught ex"
  shows "set_output w e ''report'' (json_dumps (results (final_state w cfg))) \<in> set (fst (main w e cfg))"
proof (cases "glob_files w (paths_pattern cfg) = []")
  case True
  then have "results (final_state w cfg) = []"
    by (simp add: final_state_def initial_state_def)
  moreover have "json_dumps [] = ''[]''" by (simp add: json_dumps_def)
  ultimately show ?thesis using True by (simp add: main_def)
next
  case False
  have ns: "\<forall>f \<in> set (flagged (final_state w cfg)). \<not> skipped f"
    using flagged_final_not_skipped by blast
  from report_cases [OF ns, of w e cfg] assms False show ?thesis
    by (auto simp add: main_matched)
qed

lemma set_output_report:
  assumes "truthy (GITHUB_OUTPUT e)"
  shows "set_output w e ''report'' (json_dumps rs) =
           Append_output (the (GITHUB_OUTPUT e)) (''report='' @ json_dumps rs @ [CHR 0x0A])"
  using assms json_dumps_no_newline [of rs] by (simp add: set_output_def)

lemma json_sample:
  "json_dumps [Failed ''b.md'' ''boom''] = ''[{\"file\": \"b.md\", \"error\": \"boom\", \"skipped\": true}]''"
  by (simp add: json_dumps_def dumps_str_def escape_char_def)

text \<open>
  Claim C8 (report round trip).  For every list of dictionaries the loop can build,
  parsing the text \<^verbatim>\<open>json.dumps\<close> makes of it gives back the same dictionaries, in the
  same order, field for field.  The text holds no line break, so with an output file
  configured \<^verbatim>\<open>_set_output\<close> appends it whole on one line after \<^verbatim>\<open>report=\<close>; and a run that
  does not die of an uncaught exception sets the \<^verbatim>\<open>report\<close> output to the text made of
  \<^verbatim>\<open>results\<close>.  (Without an output file there is no output: \<^verbatim>\<open>_set_output\<close> only shows the
  first 100 characters of the text on standard output.)
\<close>

theorem report_round_trip:
  "report_loads (json_dumps rs) = Some rs
   \<and> loads (json_dumps rs) = Some (JList (map file_result_json rs))
   \<and> CHR 0x0A \<notin> set (json_dumps rs)
   \<and> (truthy (GITHUB_OUTPUT e) \<longrightarrow>
        set_output w e ''report'' (json_dumps rs) =
          Append_output (the (GITHUB_OUTPUT e)) (''report='' @ json_dumps rs @ [CHR 0x0A]))
   \<and> ((\<forall>ex. snd (main w e cfg) \<noteq> Uncaught ex) \<longrightarrow>
        set_output w e ''report'' (json_dumps (results (final_state w cfg)))
          \<in> set (fst (main w e cfg)))"
  using report_loads_json_dumps [of rs] loads_dumps [OF distinct_keys_report, of rs]
    json_dumps_no_newline [of rs] set_output_report [of e w rs] report_output [of w e cfg]
  by (simp add: json_dumps_def del: dumps.simps)

theorem report_round_trip_witness:
  "report_loads ''[{\"file\": \"b.md\", \"error\": \"boom\", \"skipped\": true}]'' = Some [Failed ''b.md'' ''boom'']
   \<and> truthy (GITHUB_OUTPUT env_files)
   \<and> set_output world3 env_files ''report'' (json_dumps [Failed ''b.md'' ''boom'']) =
        Append_output ''/tmp/out''
          ''report=[{\"file\": \"b.md\", \"error\": \"boom\", \"skipped\": true}]\<newline>''
   \<and> set_output world3 env_files ''report'' (json_dumps (results (final_state world3 config70)))
        \<in> set (fst (main world3 env_files config70))"
proof -
  have t: "truthy (GITHUB_OUTPUT env_files)" by (simp add: truthy_def env_files_def)
  have u: "\<forall>ex. snd (main world3 env_files config70) \<noteq> Uncaught ex"
    by (simp add: snd_main_world3)
  have o: "the (GITHUB_OUTPUT env_files) = ''/tmp/out''" by (simp add: env_files_def)
  from report_round_trip [of "[Failed ''b.md'' ''boom'']" env_files world3 config70] t u o
  show ?thesis
    by (simp add: json_sample)
qed

end
